theory Spec2Isabelle
  imports Main "HOL-Library.Char_ord" "HOL-Library.List_Lexorder" "HOL-Library.Sublist"
begin

section \<open>Expression trees\<close>

text \<open>
  The interface \<open>Expression\<close> has five implementations, the structs \<open>License\<close>
  (fields \<open>ID\<close>, \<open>Plus\<close>, \<open>Exception\<close>), \<open>LicenseRef\<close> (fields \<open>DocumentRef\<close>,
  \<open>LicenseRef\<close>), \<open>AndExpression\<close> and \<open>OrExpression\<close> (fields \<open>Left\<close>, \<open>Right\<close>) and
  \<open>SpecialValue\<close> (field \<open>Value\<close>). Go strings are byte sequences, here \<open>char list\<close>.
\<close>

datatype Expression =
    License (ID: string) (Plus: bool) (Exception: string)
  | LicenseRef (DocumentRef: string) (LicenseRefID: string)
  | AndExpression (Left: Expression) (Right: Expression)
  | OrExpression (Left: Expression) (Right: Expression)
  | SpecialValue (Value: string)

fun String :: "Expression \<Rightarrow> string" where
  "String (License i p e) =
     (let s = i;
          s = (if p then s @ ''+'' else s);
          s = (if e \<noteq> [] then s @ '' WITH '' @ e else s)
      in s)"
| "String (LicenseRef d l) =
     (if d \<noteq> [] then ''DocumentRef-'' @ d @ '':LicenseRef-'' @ l
      else ''LicenseRef-'' @ l)"
| "String (AndExpression l r) =
     (let left = String l;
          right = String r;
          left = (if is_OrExpression l then ''('' @ left @ '')'' else left);
          right = (if is_OrExpression r then ''('' @ right @ '')'' else right)
      in left @ '' AND '' @ right)"
| "String (OrExpression l r) =
     (let left = String l;
          right = String r;
          left = (if is_AndExpression l then ''('' @ left @ '')'' else left);
          right = (if is_AndExpression r then ''('' @ right @ '')'' else right);
          right = (if is_License r \<and> Exception r \<noteq> [] then ''('' @ right @ '')'' else right);
          left = (if is_License l \<and> Exception l \<noteq> [] then ''('' @ left @ '')'' else left)
      in left @ '' OR '' @ right)"
| "String (SpecialValue v) = v"

fun Licenses :: "Expression \<Rightarrow> string list" where
  "Licenses (License i p e) = [i]"
| "Licenses (LicenseRef d l) = [String (LicenseRef d l)]"
| "Licenses (AndExpression l r) = Licenses l @ Licenses r"
| "Licenses (OrExpression l r) = Licenses l @ Licenses r"
| "Licenses (SpecialValue v) = []"


section \<open>The Go string library, on bytes\<close>


definition isSpace :: "char \<Rightarrow> bool" where
  "isSpace c \<longleftrightarrow> c = CHR 0x09 \<or> c = CHR 0x0A \<or> c = CHR 0x0B \<or> c = CHR 0x0C \<or> c = CHR 0x0D
     \<or> c = CHR '' '' \<or> c = CHR 0x85 \<or> c = CHR 0xA0"

definition upperByte :: "char \<Rightarrow> char" where
  "upperByte c =
     (case map_of (zip ''abcdefghijklmnopqrstuvwxyz'' ''ABCDEFGHIJKLMNOPQRSTUVWXYZ'') c of
        Some u \<Rightarrow> u | None \<Rightarrow> c)"

definition lowerByte :: "char \<Rightarrow> char" where
  "lowerByte c =
     (case map_of (zip ''ABCDEFGHIJKLMNOPQRSTUVWXYZ'' ''abcdefghijklmnopqrstuvwxyz'') c of
        Some l \<Rightarrow> l | None \<Rightarrow> c)"

definition ToUpper :: "string \<Rightarrow> string" where
  "ToUpper s = map upperByte s"

definition ToLower :: "string \<Rightarrow> string" where
  "ToLower s = map lowerByte s"

definition HasPrefix :: "string \<Rightarrow> string \<Rightarrow> bool" where
  "HasPrefix s pre \<longleftrightarrow> take (length pre) s = pre"

definition HasSuffix :: "string \<Rightarrow> string \<Rightarrow> bool" where
  "HasSuffix s suf \<longleftrightarrow> length suf \<le> length s \<and> drop (length s - length suf) s = suf"

text \<open>
  \<open>strings.TrimSpace\<close> reads its argument as UTF-8 and removes the leading and the
  trailing code points for which \<open>unicode.IsSpace\<close> holds: U+0009 to U+000D, U+0020,
  U+0085, U+00A0, U+1680, U+2000 to U+200A, U+2028, U+2029, U+202F, U+205F and U+3000.
  \<open>spaceRunes\<close> lists their UTF-8 encodings. \<open>utf8.DecodeRuneInString\<close> gives one of these
  code points exactly when the text begins with its encoding, and
  \<open>utf8.DecodeLastRuneInString\<close> exactly when the text ends with it (any other byte sequence
  decodes to another code point or to \<open>RuneError\<close>, where the trimming stops), so
  \<open>TrimLeftFunc\<close> and \<open>TrimRightFunc\<close> remove encodings from the two ends while there is one.
\<close>

definition spaceRunes :: "string list" where
  "spaceRunes =
     [[CHR 0x09], [CHR 0x0A], [CHR 0x0B], [CHR 0x0C], [CHR 0x0D], [CHR 0x20],
      [CHR 0xC2, CHR 0x85], [CHR 0xC2, CHR 0xA0],
      [CHR 0xE1, CHR 0x9A, CHR 0x80],
      [CHR 0xE2, CHR 0x80, CHR 0x80], [CHR 0xE2, CHR 0x80, CHR 0x81],
      [CHR 0xE2, CHR 0x80, CHR 0x82], [CHR 0xE2, CHR 0x80, CHR 0x83],
      [CHR 0xE2, CHR 0x80, CHR 0x84], [CHR 0xE2, CHR 0x80, CHR 0x85],
      [CHR 0xE2, CHR 0x80, CHR 0x86], [CHR 0xE2, CHR 0x80, CHR 0x87],
      [CHR 0xE2, CHR 0x80, CHR 0x88], [CHR 0xE2, CHR 0x80, CHR 0x89],
      [CHR 0xE2, CHR 0x80, CHR 0x8A],
      [CHR 0xE2, CHR 0x80, CHR 0xA8], [CHR 0xE2, CHR 0x80, CHR 0xA9],
      [CHR 0xE2, CHR 0x80, CHR 0xAF],
      [CHR 0xE2, CHR 0x81, CHR 0x9F],
      [CHR 0xE3, CHR 0x80, CHR 0x80]]"

lemma spaceRunes_not_empty: "r \<in> set spaceRunes \<Longrightarrow> r \<noteq> []"
  by (auto simp: spaceRunes_def)

function trimLeftSpace :: "string \<Rightarrow> string" where
  "trimLeftSpace s =
     (case find (HasPrefix s) spaceRunes of
        None \<Rightarrow> s
      | Some r \<Rightarrow> trimLeftSpace (drop (length r) s))"
  by pat_completeness auto
termination
proof (relation "measure length")
  show "wf (measure length)" by simp
next
  fix s r :: string
  assume "find (HasPrefix s) spaceRunes = Some r"
  then have "r \<in> set spaceRunes" and p: "take (length r) s = r"
    by (auto simp: find_Some_iff HasPrefix_def)
  then have "r \<noteq> []" by (simp add: spaceRunes_not_empty)
  with p have "s \<noteq> []" by auto
  with \<open>r \<noteq> []\<close> show "(drop (length r) s, s) \<in> measure length" by simp
qed

function trimRightSpace :: "string \<Rightarrow> string" where
  "trimRightSpace s =
     (case find (HasSuffix s) spaceRunes of
        None \<Rightarrow> s
      | Some r \<Rightarrow> trimRightSpace (take (length s - length r) s))"
  by pat_completeness auto
termination
proof (relation "measure length")
  show "wf (measure length)" by simp
next
  fix s r :: string
  assume "find (HasSuffix s) spaceRunes = Some r"
  then have "r \<in> set spaceRunes" and p: "length r \<le> length s"
    by (auto simp: find_Some_iff HasSuffix_def)
  then have "r \<noteq> []" by (simp add: spaceRunes_not_empty)
  with p have "s \<noteq> []" by auto
  with \<open>r \<noteq> []\<close> show "(take (length s - length r) s, s) \<in> measure length" by simp
qed

declare trimLeftSpace.simps [simp del] trimRightSpace.simps [simp del]

definition TrimSpace :: "string \<Rightarrow> string" where
  "TrimSpace s = trimRightSpace (trimLeftSpace s)"

definition TrimSuffix :: "string \<Rightarrow> string \<Rightarrow> string" where
  "TrimSuffix s suf = (if HasSuffix s suf then take (length s - length suf) s else s)"

text \<open>\<open>strings.Index\<close>: the offset of the first occurrence, \<open>None\<close> for Go's \<open>-1\<close>.\<close>

fun Index :: "string \<Rightarrow> string \<Rightarrow> nat option" where
  "Index [] sub = (if sub = [] then Some 0 else None)"
| "Index (c # s) sub =
     (if HasPrefix (c # s) sub then Some 0
      else (case Index s sub of None \<Rightarrow> None | Some i \<Rightarrow> Some (Suc i)))"

definition Contains :: "string \<Rightarrow> string \<Rightarrow> bool" where
  "Contains s sub \<longleftrightarrow> Index s sub \<noteq> None"

text \<open>
  \<open>strings.Join\<close>, and \<open>strings.ReplaceAll\<close> for a non-empty pattern (every pattern the
  program passes is a non-empty literal): the occurrences are replaced from the left,
  without overlap.
\<close>

fun Join :: "string list \<Rightarrow> string \<Rightarrow> string" where
  "Join [] sep = []"
| "Join [w] sep = w"
| "Join (w # ws) sep = w @ sep @ Join ws sep"

function ReplaceAll :: "string \<Rightarrow> string \<Rightarrow> string \<Rightarrow> string" where
  "ReplaceAll s old new =
     (if s = [] \<or> old = [] then s
      else if HasPrefix s old then new @ ReplaceAll (drop (length old) s) old new
      else hd s # ReplaceAll (tl s) old new)"
  by pat_completeness auto
termination
  by (relation "measure (\<lambda>(s, old, new). length s)") auto

declare ReplaceAll.simps [simp del]

text \<open>\<open>strings.Replace(s, old, new, 1)\<close>: only the first occurrence is replaced.\<close>

definition ReplaceFirst :: "string \<Rightarrow> string \<Rightarrow> string \<Rightarrow> string" where
  "ReplaceFirst s old new =
     (case Index s old of None \<Rightarrow> s
      | Some i \<Rightarrow> take i s @ new @ drop (i + length old) s)"

section \<open>The identifier vocabulary\<close>

text \<open>
  The license, deprecated-license and exception identifiers come from the package
  \<open>spdxlicenses\<close> of another repository (\<open>GetLicenses\<close>, \<open>GetDeprecated\<close>, \<open>GetExceptions\<close>);
  they are a parameter \<open>V\<close> of everything here. \<open>initMaps\<close> builds the maps from the
  lower-cased identifier to the identifier; a deprecated identifier does not replace a
  current one.
\<close>

record vocab =
  GetLicenses :: "string list"
  GetDeprecated :: "string list"
  GetExceptions :: "string list"

definition licenseMap :: "vocab \<Rightarrow> string \<rightharpoonup> string" where
  "licenseMap V =
     (let m = fold (\<lambda>ident m. m(ToLower ident \<mapsto> ident)) (GetLicenses V) Map.empty
      in fold (\<lambda>ident m. (case m (ToLower ident) of None \<Rightarrow> m(ToLower ident \<mapsto> ident) | Some _ \<Rightarrow> m))
           (GetDeprecated V) m)"

definition exceptionMap :: "vocab \<Rightarrow> string \<rightharpoonup> string" where
  "exceptionMap V = fold (\<lambda>ident m. m(ToLower ident \<mapsto> ident)) (GetExceptions V) Map.empty"

definition lookupLicense :: "vocab \<Rightarrow> string \<Rightarrow> string" where
  "lookupLicense V s = (case licenseMap V (ToLower s) of None \<Rightarrow> [] | Some ident \<Rightarrow> ident)"

definition lookupException :: "vocab \<Rightarrow> string \<Rightarrow> string" where
  "lookupException V s = (case exceptionMap V (ToLower s) of None \<Rightarrow> [] | Some ident \<Rightarrow> ident)"

section \<open>Errors\<close>

text \<open>
  The sentinel errors of the package, and the ways an error value is built from one:
  the sentinel itself, \<open>fmt.Errorf("%w: ...", sentinel, text)\<close>, and
  \<open>&LicenseError{License, Err}\<close>. \<open>errors.Is\<close> finds the sentinel of each through \<open>Unwrap\<close>.
  The lexer's \<open>fmt.Errorf("unexpected character: %c", ch)\<close> wraps no sentinel.
\<close>

datatype sentinel =
    ErrEmptyExpression | ErrUnexpectedToken | ErrUnbalancedParens | ErrInvalidLicenseID
  | ErrInvalidException | ErrMissingOperand | ErrInvalidSpecialValue | ErrInvalidLicense

datatype error =
    Sentinel sentinel
  | Errorf sentinel string
  | LicenseError string sentinel
  | UnexpectedCharacter char

fun errorsIs :: "error \<Rightarrow> sentinel \<Rightarrow> bool" where
  "errorsIs (Sentinel k) t \<longleftrightarrow> k = t"
| "errorsIs (Errorf k msg) t \<longleftrightarrow> k = t"
| "errorsIs (LicenseError l k) t \<longleftrightarrow> k = t"
| "errorsIs (UnexpectedCharacter c) t \<longleftrightarrow> False"

section \<open>The lexer\<close>

datatype tokenType =
    tokenLicense | tokenLicenseRef | tokenDocumentRef | tokenAnd | tokenOr | tokenWith
  | tokenPlus | tokenOpenParen | tokenCloseParen | tokenEOF

record token =
  ttyp :: tokenType
  tvalue :: string

text \<open>
  The lexer reads \<open>input\<close> from \<open>pos\<close> on and never looks back, so its state is the unread
  suffix \<open>input[pos:]\<close>. \<open>skipWhitespace\<close> and the word loop of \<open>next\<close> are the two
  \<open>for\<close> loops over it.
\<close>

definition skipWhitespace :: "string \<Rightarrow> string" where
  "skipWhitespace l = dropWhile isSpace l"

definition wordByte :: "char \<Rightarrow> bool" where
  "wordByte ch \<longleftrightarrow> \<not> (isSpace ch \<or> ch = CHR ''('' \<or> ch = CHR '')'' \<or> ch = CHR ''+'')"

definition lexer_next :: "string \<Rightarrow> error + token \<times> string" where
  "lexer_next l0 =
     (let l = skipWhitespace l0 in
      case l of
        [] \<Rightarrow> Inr (\<lparr>ttyp = tokenEOF, tvalue = []\<rparr>, l)
      | ch # rest \<Rightarrow>
          if ch = CHR ''('' then Inr (\<lparr>ttyp = tokenOpenParen, tvalue = ''(''\<rparr>, rest)
          else if ch = CHR '')'' then Inr (\<lparr>ttyp = tokenCloseParen, tvalue = '')''\<rparr>, rest)
          else if ch = CHR ''+'' then Inr (\<lparr>ttyp = tokenPlus, tvalue = ''+''\<rparr>, rest)
          else
            let word = takeWhile wordByte l;
                l' = dropWhile wordByte l
            in if word = [] then Inl (UnexpectedCharacter ch)
               else
                 let upper = ToUpper word in
                 if upper = ''AND'' then Inr (\<lparr>ttyp = tokenAnd, tvalue = ''AND''\<rparr>, l')
                 else if upper = ''OR'' then Inr (\<lparr>ttyp = tokenOr, tvalue = ''OR''\<rparr>, l')
                 else if upper = ''WITH'' then Inr (\<lparr>ttyp = tokenWith, tvalue = ''WITH''\<rparr>, l')
                 else if HasPrefix upper ''DOCUMENTREF-''
                   then Inr (\<lparr>ttyp = tokenDocumentRef, tvalue = word\<rparr>, l')
                 else if HasPrefix upper ''LICENSEREF-''
                   then Inr (\<lparr>ttyp = tokenLicenseRef, tvalue = word\<rparr>, l')
                 else Inr (\<lparr>ttyp = tokenLicense, tvalue = word\<rparr>, l'))"

section \<open>The parser\<close>

record parser =
  lexer :: string
  current :: token

definition newParser :: "string \<Rightarrow> error + parser" where
  "newParser inp =
     (case lexer_next inp of
        Inl err \<Rightarrow> Inl err
      | Inr (tok, l) \<Rightarrow> Inr \<lparr>lexer = l, current = tok\<rparr>)"

definition advance :: "parser \<Rightarrow> error + parser" where
  "advance p =
     (case lexer_next (lexer p) of
        Inl err \<Rightarrow> Inl err
      | Inr (tok, l) \<Rightarrow> Inr (p\<lparr>lexer := l, current := tok\<rparr>))"

definition parseLicenseRef :: "string \<Rightarrow> Expression" where
  "parseLicenseRef s =
     (let upper = ToUpper s in
      if HasPrefix upper ''LICENSEREF-'' then LicenseRef [] (drop 11 s)
      else LicenseRef [] s)"

definition parseDocumentRef :: "string \<Rightarrow> Expression" where
  "parseDocumentRef s =
     (let upper = ToUpper s in
      if HasPrefix upper ''DOCUMENTREF-'' then
        (let rest = drop 12 s in
         case Index (ToUpper rest) '':LICENSEREF-'' of
           Some idx \<Rightarrow> LicenseRef (take idx rest) (drop (idx + 12) rest)
         | None \<Rightarrow> LicenseRef [] s)
      else LicenseRef [] s)"

text \<open>
  The four mutually recursive methods of the parser, and the two \<open>for\<close> loops of
  \<open>parseExpression\<close> and \<open>parseAnd\<close>. The number \<open>n\<close> bounds the depth of the calls
  (a loop iteration counts as a call): the result \<open>None\<close> says that the bound was reached,
  \<open>Some (Inl err)\<close> is the error return and \<open>Some (Inr (expr, p))\<close> the expression together
  with the parser state after it.
\<close>

fun parseExpression :: "vocab \<Rightarrow> nat \<Rightarrow> parser \<Rightarrow> (error + Expression \<times> parser) option"
  and parseExpression_loop ::
    "vocab \<Rightarrow> nat \<Rightarrow> Expression \<Rightarrow> parser \<Rightarrow> (error + Expression \<times> parser) option"
  and parseAnd :: "vocab \<Rightarrow> nat \<Rightarrow> parser \<Rightarrow> (error + Expression \<times> parser) option"
  and parseAnd_loop ::
    "vocab \<Rightarrow> nat \<Rightarrow> Expression \<Rightarrow> parser \<Rightarrow> (error + Expression \<times> parser) option"
  and parseWith :: "vocab \<Rightarrow> nat \<Rightarrow> parser \<Rightarrow> (error + Expression \<times> parser) option"
  and parseAtom :: "vocab \<Rightarrow> nat \<Rightarrow> parser \<Rightarrow> (error + Expression \<times> parser) option"
where
  "parseExpression V 0 p = None"
| "parseExpression V (Suc n) p =
     (case parseAnd V n p of
        None \<Rightarrow> None
      | Some (Inl err) \<Rightarrow> Some (Inl err)
      | Some (Inr (left, p)) \<Rightarrow> parseExpression_loop V n left p)"
| "parseExpression_loop V 0 left p = None"
| "parseExpression_loop V (Suc n) left p =
     (if ttyp (current p) = tokenOr then
        (case advance p of
           Inl err \<Rightarrow> Some (Inl err)
         | Inr p \<Rightarrow>
            (case parseAnd V n p of
               None \<Rightarrow> None
             | Some (Inl err) \<Rightarrow> Some (Inl err)
             | Some (Inr (right, p)) \<Rightarrow> parseExpression_loop V n (OrExpression left right) p))
      else Some (Inr (left, p)))"
| "parseAnd V 0 p = None"
| "parseAnd V (Suc n) p =
     (case parseWith V n p of
        None \<Rightarrow> None
      | Some (Inl err) \<Rightarrow> Some (Inl err)
      | Some (Inr (left, p)) \<Rightarrow> parseAnd_loop V n left p)"
| "parseAnd_loop V 0 left p = None"
| "parseAnd_loop V (Suc n) left p =
     (if ttyp (current p) = tokenAnd then
        (case advance p of
           Inl err \<Rightarrow> Some (Inl err)
         | Inr p \<Rightarrow>
            (case parseWith V n p of
               None \<Rightarrow> None
             | Some (Inl err) \<Rightarrow> Some (Inl err)
             | Some (Inr (right, p)) \<Rightarrow> parseAnd_loop V n (AndExpression left right) p))
      else Some (Inr (left, p)))"
| "parseWith V 0 p = None"
| "parseWith V (Suc n) p =
     (case parseAtom V n p of
        None \<Rightarrow> None
      | Some (Inl err) \<Rightarrow> Some (Inl err)
      | Some (Inr (left, p)) \<Rightarrow>
          if ttyp (current p) = tokenWith then
            (case left of
               License i pl exc \<Rightarrow>
                 (case advance p of
                    Inl err \<Rightarrow> Some (Inl err)
                  | Inr p \<Rightarrow>
                      if ttyp (current p) \<noteq> tokenLicense
                      then Some (Inl (Errorf ErrMissingOperand ''expected exception after WITH''))
                      else
                        let exception = lookupException V (tvalue (current p)) in
                        if exception = []
                        then Some (Inl (Errorf ErrInvalidException (tvalue (current p))))
                        else
                          (case advance p of
                             Inl err \<Rightarrow> Some (Inl err)
                           | Inr p \<Rightarrow> Some (Inr (License i pl exception, p))))
             | _ \<Rightarrow> Some (Inl (Errorf ErrUnexpectedToken ''WITH can only follow a license'')))
          else Some (Inr (left, p)))"
| "parseAtom V 0 p = None"
| "parseAtom V (Suc n) p =
     (case ttyp (current p) of
        tokenOpenParen \<Rightarrow>
          (case advance p of
             Inl err \<Rightarrow> Some (Inl err)
           | Inr p \<Rightarrow>
              (case parseExpression V n p of
                 None \<Rightarrow> None
               | Some (Inl err) \<Rightarrow> Some (Inl err)
               | Some (Inr (expr, p)) \<Rightarrow>
                   if ttyp (current p) \<noteq> tokenCloseParen
                   then Some (Inl (Sentinel ErrUnbalancedParens))
                   else
                     (case advance p of
                        Inl err \<Rightarrow> Some (Inl err)
                      | Inr p \<Rightarrow> Some (Inr (expr, p)))))
      | tokenLicense \<Rightarrow>
          (let value = tvalue (current p);
               upper = ToUpper value
           in if upper = ''NONE'' \<or> upper = ''NOASSERTION'' then
                (case advance p of
                   Inl err \<Rightarrow> Some (Inl err)
                 | Inr p \<Rightarrow> Some (Inr (SpecialValue upper, p)))
              else
                let ident = lookupLicense V value in
                if ident = [] then Some (Inl (Errorf ErrInvalidLicenseID value))
                else
                  (case advance p of
                     Inl err \<Rightarrow> Some (Inl err)
                   | Inr p \<Rightarrow>
                       if ttyp (current p) = tokenPlus then
                         (case advance p of
                            Inl err \<Rightarrow> Some (Inl err)
                          | Inr p \<Rightarrow> Some (Inr (License ident True [], p)))
                       else Some (Inr (License ident False [], p))))
      | tokenLicenseRef \<Rightarrow>
          (let ref = parseLicenseRef (tvalue (current p)) in
           case advance p of
             Inl err \<Rightarrow> Some (Inl err)
           | Inr p \<Rightarrow> Some (Inr (ref, p)))
      | tokenDocumentRef \<Rightarrow>
          (let ref = parseDocumentRef (tvalue (current p)) in
           case advance p of
             Inl err \<Rightarrow> Some (Inl err)
           | Inr p \<Rightarrow> Some (Inr (ref, p)))
      | tokenEOF \<Rightarrow> Some (Inl (Sentinel ErrMissingOperand))
      | _ \<Rightarrow> Some (Inl (Errorf ErrUnexpectedToken (tvalue (current p)))))"

text \<open>
  The two entry points run the parser with a bound of \<open>4 * k + 4\<close> calls on an input of
  \<open>k\<close> bytes. The depth of the calls stays below it (\<open>parse_run_returns\<close>).
\<close>

definition parse_fuel :: "string \<Rightarrow> nat" where
  "parse_fuel inp = 4 * length inp + 4"

definition parse_run :: "vocab \<Rightarrow> string \<Rightarrow> (error + Expression) option" where
  "parse_run V inp =
     (case newParser inp of
        Inl err \<Rightarrow> Some (Inl err)
      | Inr p \<Rightarrow>
         (case parseExpression V (parse_fuel inp) p of
            None \<Rightarrow> None
          | Some (Inl err) \<Rightarrow> Some (Inl err)
          | Some (Inr (expr, p)) \<Rightarrow>
              if ttyp (current p) \<noteq> tokenEOF
              then Some (Inl (Errorf ErrUnexpectedToken (tvalue (current p))))
              else Some (Inr expr)))"

definition ParseStrict :: "vocab \<Rightarrow> string \<Rightarrow> (error + Expression) option" where
  "ParseStrict V expression =
     (let expression = TrimSpace expression in
      if expression = [] then Some (Inl (Sentinel ErrEmptyExpression))
      else parse_run V expression)"

section \<open>Regular expressions\<close>

text \<open>
  The fragment of Go's \<open>regexp\<close> syntax that the patterns of \<open>normalize.go\<close> are written
  in: a byte, a letter under the flag \<open>(?i)\<close>, the classes \<open>\s\<close> (the five bytes
  tab, newline, form feed, carriage return and space) and \<open>\d\<close>, the repetitions \<open>x*\<close> and
  \<open>x+\<close> of one of these, \<open>\b\<close>, \<open>$\<close>, concatenation, alternation, \<open>r?\<close> and
  capturing groups. Go returns the leftmost match and, among the matches that start there,
  the one a backtracking search finds first; \<open>rmatch\<close> is that search, with the rest of
  the pattern as a continuation.
\<close>

datatype cclass = Byte char | Fold char | Space | Digit

datatype regex =
    One cclass
  | Repeat0 cclass
  | Repeat1 cclass
  | WordBoundary
  | EndText
  | Cat regex regex
  | Alt regex regex
  | Opt regex
  | Group nat regex

definition isDigit :: "char \<Rightarrow> bool" where
  "isDigit c \<longleftrightarrow> c \<in> set ''0123456789''"

definition isWordChar :: "char \<Rightarrow> bool" where
  "isWordChar c \<longleftrightarrow>
     c \<in> set ''0123456789abcdefghijklmnopqrstuvwxyzABCDEFGHIJKLMNOPQRSTUVWXYZ_''"

fun inClass :: "cclass \<Rightarrow> char \<Rightarrow> bool" where
  "inClass (Byte c) x \<longleftrightarrow> x = c"
| "inClass (Fold c) x \<longleftrightarrow> lowerByte x = lowerByte c"
| "inClass Space x \<longleftrightarrow>
     x = CHR 0x09 \<or> x = CHR 0x0A \<or> x = CHR 0x0C \<or> x = CHR 0x0D \<or> x = CHR '' ''"
| "inClass Digit x \<longleftrightarrow> isDigit x"

text \<open>
  A state of the search: the byte before the start of the match (if any), the bytes matched
  so far (last one first), the unread text, and the groups closed so far (the latest first).
\<close>

type_synonym mstate = "char option \<times> string \<times> string \<times> (nat \<times> string) list"

fun starMatch :: "cclass \<Rightarrow> char option \<Rightarrow> string \<Rightarrow> string \<Rightarrow> (nat \<times> string) list
    \<Rightarrow> (mstate \<Rightarrow> mstate option) \<Rightarrow> mstate option" where
  "starMatch cl pre acc [] caps k = k (pre, acc, [], caps)"
| "starMatch cl pre acc (x # xs) caps k =
     (if inClass cl x then
        (case starMatch cl pre (x # acc) xs caps k of
           Some m \<Rightarrow> Some m
         | None \<Rightarrow> k (pre, acc, x # xs, caps))
      else k (pre, acc, x # xs, caps))"

definition atBoundary :: "char option \<Rightarrow> string \<Rightarrow> string \<Rightarrow> bool" where
  "atBoundary pre acc rest \<longleftrightarrow>
     (let wordBefore = (case acc of c # _ \<Rightarrow> isWordChar c
                    | [] \<Rightarrow> (case pre of Some c \<Rightarrow> isWordChar c | None \<Rightarrow> False));
          wordAfter = (case rest of c # _ \<Rightarrow> isWordChar c | [] \<Rightarrow> False)
      in wordBefore \<noteq> wordAfter)"

fun rmatch :: "regex \<Rightarrow> mstate \<Rightarrow> (mstate \<Rightarrow> mstate option) \<Rightarrow> mstate option" where
  "rmatch (One cl) (pre, acc, rest, caps) k =
     (case rest of
        [] \<Rightarrow> None
      | x # xs \<Rightarrow> if inClass cl x then k (pre, x # acc, xs, caps) else None)"
| "rmatch (Repeat0 cl) (pre, acc, rest, caps) k = starMatch cl pre acc rest caps k"
| "rmatch (Repeat1 cl) (pre, acc, rest, caps) k =
     (case rest of
        [] \<Rightarrow> None
      | x # xs \<Rightarrow> if inClass cl x then starMatch cl pre (x # acc) xs caps k else None)"
| "rmatch WordBoundary (pre, acc, rest, caps) k =
     (if atBoundary pre acc rest then k (pre, acc, rest, caps) else None)"
| "rmatch EndText (pre, acc, rest, caps) k =
     (if rest = [] then k (pre, acc, rest, caps) else None)"
| "rmatch (Cat r1 r2) st k = rmatch r1 st (\<lambda>st'. rmatch r2 st' k)"
| "rmatch (Alt r1 r2) st k =
     (case rmatch r1 st k of Some m \<Rightarrow> Some m | None \<Rightarrow> rmatch r2 st k)"
| "rmatch (Opt r) st k =
     (case rmatch r st k of Some m \<Rightarrow> Some m | None \<Rightarrow> k st)"
| "rmatch (Group n r) (pre, acc, rest, caps) k =
     rmatch r (pre, acc, rest, caps)
       (\<lambda>(pre', acc', rest', caps').
          k (pre', acc', rest', (n, rev (take (length acc' - length acc) acc')) # caps'))"

text \<open>
  The leftmost match in \<open>s\<close>, where \<open>pre\<close> is the byte before \<open>s\<close>: the offset of its
  start, its length and its groups.
\<close>

fun findMatch :: "regex \<Rightarrow> char option \<Rightarrow> string \<Rightarrow> (nat \<times> nat \<times> (nat \<times> string) list) option" where
  "findMatch re pre [] =
     (case rmatch re (pre, [], [], []) Some of
        Some (_, acc, _, caps) \<Rightarrow> Some (0, length acc, caps)
      | None \<Rightarrow> None)"
| "findMatch re pre (c # s) =
     (case rmatch re (pre, [], c # s, []) Some of
        Some (_, acc, _, caps) \<Rightarrow> Some (0, length acc, caps)
      | None \<Rightarrow>
         (case findMatch re (Some c) s of
            Some (i, m, caps) \<Rightarrow> Some (Suc i, m, caps)
          | None \<Rightarrow> None))"

text \<open>
  A replacement template, already split at its \<open>$n\<close> references: \<open>"-$1.0"\<close> is
  \<open>[Text ''-'', Ref 1, Text ''.0'']\<close>. A group that took no part in the match expands to
  the empty string.
\<close>

datatype tpart = Text string | Ref nat

fun expand :: "tpart list \<Rightarrow> (nat \<times> string) list \<Rightarrow> string" where
  "expand [] caps = []"
| "expand (Text t # ps) caps = t @ expand ps caps"
| "expand (Ref n # ps) caps =
     (case map_of caps n of Some g \<Rightarrow> g | None \<Rightarrow> []) @ expand ps caps"

text \<open>
  \<open>Regexp.ReplaceAllString\<close>: the matches are replaced from the left, each search resuming
  where the last match ended. After an empty match (no pattern of the program has one) one
  byte is copied; a match of one byte or more is in a text that is not empty.
\<close>

function regexReplace :: "regex \<Rightarrow> tpart list \<Rightarrow> char option \<Rightarrow> string \<Rightarrow> string" where
  "regexReplace re tmpl pre s =
     (case findMatch re pre s of
        None \<Rightarrow> s
      | Some (i, m, caps) \<Rightarrow>
          take i s @ expand tmpl caps @
          (if m = 0 then
             (if drop i s = [] then []
              else take 1 (drop i s) @
                     regexReplace re tmpl (Some (s ! i)) (drop (Suc i) s))
           else if s = [] then []
           else regexReplace re tmpl (Some (s ! (i + m - 1))) (drop (i + m) s)))"
  by pat_completeness auto
termination
  by (relation "measure (\<lambda>(re, tmpl, pre, s). length s)") auto

declare regexReplace.simps [simp del]

definition ReplaceAllString :: "regex \<Rightarrow> string \<Rightarrow> tpart list \<Rightarrow> string" where
  "ReplaceAllString re s tmpl = regexReplace re tmpl None s"

text \<open>\<open>lit\<close> is a literal, \<open>liti\<close> a literal under \<open>(?i)\<close>; both are given a non-empty text.\<close>

fun lit :: "string \<Rightarrow> regex" where
  "lit [] = Opt EndText"
| "lit [c] = One (Byte c)"
| "lit (c # cs) = Cat (One (Byte c)) (lit cs)"

fun liti :: "string \<Rightarrow> regex" where
  "liti [] = Opt EndText"
| "liti [c] = One (Fold c)"
| "liti (c # cs) = Cat (One (Fold c)) (liti cs)"

section \<open>The normalizer\<close>

subsection \<open>The tables\<close>

text \<open>
  \<open>transpositionData\<close> and \<open>lastResorts\<close> as \<open>normalize.go\<close> lists them. \<open>init\<close> sorts
  both with \<open>sort.Slice\<close>, the longer text first and texts of one length in byte order;
  no text occurs twice, so the order is total and every sorting algorithm gives the
  same list.
\<close>

definition transpositionData :: "(string \<times> string) list" where
  "transpositionData =
    [(''The Apache Software License, Version 2.0'', ''Apache-2.0''),
     (''The Apache License, Version 2.0'', ''Apache-2.0''),
     (''Apache Software License, Version 2.0'', ''Apache-2.0''),
     (''Apache License, Version 2.0'', ''Apache-2.0''),
     (''The Apache Software License'', ''Apache''),
     (''Apache Software License'', ''Apache''),
     (''The MIT License'', ''MIT''),
     (''GNU Lesser General Public License v3.0'', ''LGPL-3.0''),
     (''GNU Lesser General Public License v3'', ''LGPL-3.0''),
     (''GNU Lesser General Public License v2.1'', ''LGPL-2.1''),
     (''GNU Lesser General Public License v2.0'', ''LGPL-2.0''),
     (''GNU Lesser General Public License v2'', ''LGPL-2.0''),
     (''GNU LESSER GENERAL PUBLIC LICENSE'', ''LGPL-2.1''),
     (''GNU Lesser General Public License'', ''LGPL-2.1''),
     (''Lesser General Public License'', ''LGPL-2.1''),
     (''LESSER GENERAL PUBLIC LICENSE'', ''LGPL-2.1''),
     (''GNU AFFERO GENERAL PUBLIC LICENSE'', ''AGPL''),
     (''AFFERO GENERAL PUBLIC LICENSE'', ''AGPL''),
     (''GNU GENERAL PUBLIC LICENSE'', ''GPL''),
     (''GNU General Public License'', ''GPL''),
     (''Gnu public license'', ''GPL''),
     (''GNU Public License'', ''GPL''),
     (''Mozilla Public License'', ''MPL''),
     (''Universal Permissive License'', ''UPL''),
     (''Eclipse Public License'', ''EPL''),
     ('' or later'', ''+''),
     (''-or-later'', ''+''),
     ('' International'', ''''),
     (''GNU LGPL'', ''LGPL''),
     (''GNU GPL'', ''GPL''),
     (''GNU/GPL'', ''GPL''),
     (''GNU GLP'', ''GPL''),
     (''GNU/GPLv'', ''GPLv''),
     ('' License'', ''''),
     (''-License'', ''''),
     (''WTFGPL'', ''WTFPL''),
     (''APGL'', ''AGPL''),
     (''GLP'', ''GPL''),
     (''APLv'', ''Apache-''),
     (''APL'', ''Apache''),
     (''ISD'', ''ISC''),
     (''IST'', ''ISC''),
     (''MTI'', ''MIT''),
     (''GNU'', ''GPL''),
     (''GUN'', ''GPL''),
     (''Gpl'', ''GPL''),
     (''WTH'', ''WTF''),
     (''Claude'', ''Clause''),
     (''+'', '''')]"

definition lastResortData :: "(string \<times> string) list" where
  "lastResortData =
    [(''MIT +NO-FALSE-ATTRIBS'', ''MITNFA''),
     (''PUBLIC DOMAIN'', ''Unlicense''),
     (''PUBLIC-DOMAIN'', ''Unlicense''),
     (''PUBLICDOMAIN'', ''Unlicense''),
     (''ECLIPSE PUBLIC LICENSE 2'', ''EPL-2.0''),
     (''ECLIPSE PUBLIC LICENSE, VERSION 2'', ''EPL-2.0''),
     (''ECLIPSE PUBLIC LICENSE V2'', ''EPL-2.0''),
     (''EPL-2'', ''EPL-2.0''),
     (''EPL 2'', ''EPL-2.0''),
     (''EPL2'', ''EPL-2.0''),
     (''ECLIPSE PUBLIC LICENSE 1'', ''EPL-1.0''),
     (''EPL-1'', ''EPL-1.0''),
     (''EPL 1'', ''EPL-1.0''),
     (''EPL1'', ''EPL-1.0''),
     (''ASL-2'', ''Apache-2.0''),
     (''ASL 2'', ''Apache-2.0''),
     (''ASL2'', ''Apache-2.0''),
     (''ALV2'', ''Apache-2.0''),
     (''AL2'', ''Apache-2.0''),
     (''ASL'', ''Apache-2.0''),
     (''2 CLAUSE'', ''BSD-2-Clause''),
     (''2-CLAUSE'', ''BSD-2-Clause''),
     (''3 CLAUSE'', ''BSD-3-Clause''),
     (''3-CLAUSE'', ''BSD-3-Clause''),
     (''AFFERO'', ''AGPL-3.0-or-later''),
     (''AGPL'', ''AGPL-3.0-or-later''),
     (''LGPL2.1+'', ''LGPL-2.1-or-later''),
     (''LGPL2.1'', ''LGPL-2.1-only''),
     (''LGPLV2.1'', ''LGPL-2.1-only''),
     (''LGPLV1'', ''LGPL-1.0-only''),
     (''LGPL-1'', ''LGPL-1.0-only''),
     (''LGPLV2'', ''LGPL-2.0-only''),
     (''LGPL-2'', ''LGPL-2.0-only''),
     (''LGPL'', ''LGPL-3.0-or-later''),
     (''GPLV1'', ''GPL-1.0-only''),
     (''GPL-1'', ''GPL-1.0-only''),
     (''GPLV2'', ''GPL-2.0-only''),
     (''GPL-2'', ''GPL-2.0-only''),
     (''GPL'', ''GPL-3.0-or-later''),
     (''GNU'', ''GPL-3.0-or-later''),
     (''APACHE'', ''Apache-2.0''),
     (''ARTISTIC_2'', ''Artistic-2.0''),
     (''ARTISTIC_1'', ''Artistic-1.0''),
     (''ARTISTIC-2'', ''Artistic-2.0''),
     (''ARTISTIC-1'', ''Artistic-1.0''),
     (''ARTISTIC 2'', ''Artistic-2.0''),
     (''ARTISTIC 1'', ''Artistic-1.0''),
     (''ARTISTIC'', ''Artistic-2.0''),
     (''BEER'', ''Beerware''),
     (''BOOST'', ''BSL-1.0''),
     (''BSD'', ''BSD-2-Clause''),
     (''CC0'', ''CC0-1.0''),
     (''CDDL'', ''CDDL-1.1''),
     (''ECLIPSE'', ''EPL-1.0''),
     (''EPL'', ''EPL-1.0''),
     (''FUCK'', ''WTFPL''),
     (''MIT'', ''MIT''),
     (''MPL'', ''MPL-2.0''),
     (''UNLI'', ''Unlicense''),
     (''UPL'', ''UPL-1.0''),
     (''WTF'', ''WTFPL''),
     (''X11'', ''X11''),
     (''ZLIB'', ''Zlib''),
     (''ISCL'', ''ISC''),
     (''ICS'', ''ISC''),
     (''ISC'', ''ISC''),
     (''OPEN FONT'', ''OFL-1.1''),
     (''OFL'', ''OFL-1.1''),
     (''PHP-3'', ''PHP-3.01''),
     (''PHP'', ''PHP-3.01''),
     (''PYTHON SOFTWARE FOUNDATION'', ''PSF-2.0''),
     (''PSF-2'', ''PSF-2.0''),
     (''PSF'', ''PSF-2.0''),
     (''PYTHON'', ''Python-2.0''),
     (''PERL_5'', ''Artistic-1.0-Perl''),
     (''PERL5'', ''Artistic-1.0-Perl''),
     (''PERL 5'', ''Artistic-1.0-Perl''),
     (''ZPL'', ''ZPL-2.1''),
     (''EUROPEAN UNION PUBLIC'', ''EUPL-1.2''),
     (''EUPL'', ''EUPL-1.2''),
     (''WXWINDOWS'', ''wxWindows''),
     (''WXWIDGETS'', ''wxWindows'')]"

definition longestFirst :: "string \<times> string \<Rightarrow> string \<times> string \<Rightarrow> bool" where
  "longestFirst a b =
     (let li = length (fst a); lj = length (fst b)
      in if li \<noteq> lj then li > lj else fst a < fst b)"

fun insertBy :: "('a \<Rightarrow> 'a \<Rightarrow> bool) \<Rightarrow> 'a \<Rightarrow> 'a list \<Rightarrow> 'a list" where
  "insertBy lt x [] = [x]"
| "insertBy lt x (y # ys) = (if lt x y then x # y # ys else y # insertBy lt x ys)"

definition sortSlice :: "('a \<Rightarrow> 'a \<Rightarrow> bool) \<Rightarrow> 'a list \<Rightarrow> 'a list" where
  "sortSlice lt xs = foldr (insertBy lt) xs []"

text \<open>The fields \<open>from\<close>, \<open>fromUpper\<close>, \<open>to\<close> and \<open>re\<close> of a \<open>transposition\<close>.\<close>

record transposition =
  tfrom :: string
  tfromUpper :: string
  tto :: string
  tre :: regex

definition transpositions :: "transposition list" where
  "transpositions =
     sortSlice (\<lambda>a b. longestFirst (tfrom a, tto a) (tfrom b, tto b))
       (map (\<lambda>d. \<lparr>tfrom = fst d, tfromUpper = ToUpper (fst d), tto = snd d, tre = liti (fst d)\<rparr>)
          transpositionData)"

text \<open>A \<open>lastResort\<close> is the pair of its \<open>substring\<close> and its \<open>license\<close>.\<close>

definition lastResorts :: "(string \<times> string) list" where
  "lastResorts = sortSlice longestFirst lastResortData"

subsection \<open>The patterns\<close>

definition reWhitespace :: regex where
  "reWhitespace = Repeat1 Space"

definition reDigit :: regex where
  "reDigit = Cat (Opt (One (Byte CHR '',''))) (Cat (Repeat0 Space) (Group 1 (One Digit)))"

definition reDigitEnd :: regex where
  "reDigitEnd =
     Cat (Opt (One (Byte CHR '',''))) (Cat (Repeat0 Space) (Cat (Group 1 (One Digit)) EndText))"

definition versionWord :: regex where
  "versionWord = Group 1 (Alt (Cat (One (Fold CHR ''V'')) (Opt (One (Byte CHR ''.''))))
                               (liti ''Version''))"

definition reVersion :: regex where
  "reVersion =
     Cat (Opt (One (Byte CHR '',''))) (Cat (Repeat0 Space)
       (Cat versionWord (Cat (Repeat0 Space) (Group 2 (One Digit)))))"

definition reVersionEnd :: regex where
  "reVersionEnd =
     Cat (Opt (One (Byte CHR '',''))) (Cat (Repeat0 Space)
       (Cat versionWord (Cat (Repeat0 Space) (Cat (Group 2 (One Digit)) EndText))))"

definition reTrailingDigit :: regex where
  "reTrailingDigit = Cat (Group 1 (One Digit)) EndText"

definition dashOrSpace :: "nat \<Rightarrow> regex" where
  "dashOrSpace n = Group n (Alt (One (Byte CHR ''-'')) (One Space))"

definition reBSDNum :: regex where
  "reBSDNum = Cat (Opt (dashOrSpace 1)) (Cat (Group 2 (One Digit)) EndText)"

definition reBSDClause :: regex where
  "reBSDClause =
     Cat (dashOrSpace 1) (Cat (liti ''clause'') (Cat (dashOrSpace 2) (Group 3 (One Digit))))"

text \<open>
  The five patterns of the shape \<open>\bWORD(-|\s)?BSD((-|\s)License)?\<close>; \<open>n\<close> is the number
  of the first group after the word, and \<open>license\<close> the pattern of the word \<open>License\<close>.
\<close>

definition bsdTail :: "nat \<Rightarrow> regex \<Rightarrow> regex" where
  "bsdTail n license =
     Cat (Opt (dashOrSpace n))
       (Cat (liti ''BSD'') (Opt (Group (n + 1) (Cat (dashOrSpace (n + 2)) license))))"

definition reNewBSD :: regex where
  "reNewBSD =
     Cat WordBoundary
       (Cat (Group 1 (Alt (liti ''Modified'') (Alt (liti ''New'') (liti ''Revised''))))
          (bsdTail 2 (liti ''License'')))"

definition reSimplifiedBSD :: regex where
  "reSimplifiedBSD = Cat WordBoundary (Cat (liti ''Simplified'') (bsdTail 1 (liti ''License'')))"

definition reFreeNetBSD :: regex where
  "reFreeNetBSD =
     Cat WordBoundary
       (Cat (Group 1 (Alt (liti ''Free'') (liti ''Net'')))
          (bsdTail 2
             (Cat (liti ''Licen'')
                (Cat (Alt (One (Fold CHR ''s'')) (One (Fold CHR ''c''))) (One (Fold CHR ''e''))))))"

definition reClearBSD :: regex where
  "reClearBSD = Cat WordBoundary (Cat (liti ''Clear'') (bsdTail 1 (liti ''License'')))"

definition reOldBSD :: regex where
  "reOldBSD =
     Cat WordBoundary
       (Cat (Group 1 (Alt (liti ''Old'') (liti ''Original''))) (bsdTail 2 (liti ''License'')))"

definition reCCSpaceDigit :: regex where
  "reCCSpaceDigit = Cat (Repeat1 Space) (Group 1 (One Digit))"

definition reCCVersion :: regex where
  "reCCVersion = Cat (One Digit) (Cat (One (Byte CHR ''.'')) (One Digit))"

definition MatchString :: "regex \<Rightarrow> string \<Rightarrow> bool" where
  "MatchString r s \<longleftrightarrow> findMatch r None s \<noteq> None"

subsection \<open>The transforms\<close>

definition freeNetBSD :: "string \<Rightarrow> string" where
  "freeNetBSD s =
     (case findMatch reFreeNetBSD None s of
        None \<Rightarrow> s
      | Some (i, m, caps) \<Rightarrow>
          (let match1 = (case map_of caps 1 of Some g \<Rightarrow> g | None \<Rightarrow> []);
               variant = ToUpper (take 1 match1) @ ToLower (drop 1 match1)
           in ''BSD-2-Clause-'' @ variant @ ''BSD''))"

definition ccAttribution :: "string \<Rightarrow> string" where
  "ccAttribution s =
     (let result = s;
          result = ReplaceAll result ''Attribution'' ''BY'';
          result = ReplaceAll result ''NonCommercial'' ''NC'';
          result = ReplaceAll result ''NoDerivatives'' ''ND'';
          result = ReplaceAll result ''ShareAlike'' ''SA'';
          result = ReplaceAllString reCCSpaceDigit result [Text ''-'', Ref 1];
          result = ReplaceAll result '' International'' []
      in if result \<noteq> s \<and> \<not> HasPrefix result ''CC-'' then
           (let result = ''CC-'' @ result
            in if \<not> MatchString reCCVersion result then result @ ''-4.0'' else result)
         else result)"

definition transforms :: "(string \<Rightarrow> string) list" where
  "transforms =
     [\<lambda>s. ToUpper s,
      \<lambda>s. TrimSpace s,
      \<lambda>s. ReplaceAll s ''.'' [],
      \<lambda>s. ReplaceAllString reWhitespace s [],
      \<lambda>s. ReplaceAllString reWhitespace s [Text ''-''],
      \<lambda>s. ReplaceFirst s ''v'' ''-'',
      \<lambda>s. ReplaceAllString reDigit s [Text ''-'', Ref 1],
      \<lambda>s. ReplaceAllString reDigitEnd s [Text ''-'', Ref 1, Text ''.0''],
      \<lambda>s. ReplaceAllString reVersion s [Text ''-'', Ref 2],
      \<lambda>s. ReplaceAllString reVersionEnd s [Text ''-'', Ref 2, Text ''.0''],
      \<lambda>s. if length s = 0 then s else ToUpper (take 1 s) @ drop 1 s,
      \<lambda>s. ReplaceAll s ''/'' ''-'',
      \<lambda>s. if Contains s ''3.0'' then s @ ''-or-later'' else s @ ''-only'',
      \<lambda>s. if HasSuffix s ''-'' then s @ ''only'' else s,
      \<lambda>s. ReplaceAllString reTrailingDigit s [Text ''-'', Ref 1, Text ''.0''],
      \<lambda>s. ReplaceAllString reBSDNum s [Text ''-'', Ref 2, Text ''-Clause''],
      \<lambda>s. ReplaceAllString reBSDClause s [Text ''-'', Ref 3, Text ''-Clause''],
      \<lambda>s. ReplaceAllString reNewBSD s [Text ''BSD-3-Clause''],
      \<lambda>s. ReplaceAllString reSimplifiedBSD s [Text ''BSD-2-Clause''],
      freeNetBSD,
      \<lambda>s. ReplaceAllString reClearBSD s [Text ''BSD-3-Clause-Clear''],
      \<lambda>s. ReplaceAllString reOldBSD s [Text ''BSD-4-Clause''],
      \<lambda>s. if HasPrefix (ToUpper s) ''BY-'' then ''CC-'' @ s else s,
      ccAttribution]"

subsection \<open>The tiers\<close>

definition upgradeGPL :: "string \<Rightarrow> string" where
  "upgradeGPL license =
     (if license \<in> set [''GPL-1.0'', ''LGPL-1.0'', ''AGPL-1.0'',
                          ''GPL-2.0'', ''LGPL-2.0'', ''AGPL-2.0'',
                          ''LGPL-2.1'']
      then license @ ''-only''
      else if license \<in> set [''GPL-1.0+'', ''GPL-2.0+'', ''GPL-3.0+'',
                               ''LGPL-2.0+'', ''LGPL-2.1+'', ''LGPL-3.0+'',
                               ''AGPL-1.0+'', ''AGPL-3.0+'']
      then TrimSuffix license ''+'' @ ''-or-later''
      else if license \<in> set [''GPL-3.0'', ''LGPL-3.0'', ''AGPL-3.0'']
      then license @ ''-or-later''
      else license)"

text \<open>The loop of \<open>tryTransforms\<close> over the transforms that are left.\<close>

fun tryTransforms_loop ::
    "vocab \<Rightarrow> (string \<Rightarrow> string) list \<Rightarrow> string \<Rightarrow> bool \<Rightarrow> string \<Rightarrow> string" where
  "tryTransforms_loop V [] s hasPlus base = []"
| "tryTransforms_loop V (t # ts) s hasPlus base =
     (let transformed = TrimSpace (t s) in
      if transformed \<noteq> s \<and> lookupLicense V transformed \<noteq> []
      then upgradeGPL (lookupLicense V transformed)
      else
        let transformedBase = TrimSpace (t base) in
        if hasPlus \<and> transformedBase \<noteq> base \<and> lookupLicense V transformedBase \<noteq> []
        then upgradeGPL (lookupLicense V transformedBase @ ''+'')
        else tryTransforms_loop V ts s hasPlus base)"

definition tryTransforms :: "vocab \<Rightarrow> string \<Rightarrow> string" where
  "tryTransforms V s =
     (let hasPlus = HasSuffix s ''+'';
          base = TrimSuffix s ''+''
      in tryTransforms_loop V transforms s hasPlus base)"

text \<open>
  The text a transposition makes of \<open>s\<close>, in both \<open>tryTranspositions\<close> and
  \<open>tryTranspositionsWithLastResorts\<close>: the exact replacement, and the replacement in any
  case of the letters when the exact one changes nothing.
\<close>

definition applicable :: "transposition \<Rightarrow> string \<Rightarrow> bool" where
  "applicable tr s \<longleftrightarrow> Contains s (tfrom tr) \<or> Contains (ToUpper s) (tfromUpper tr)"

definition corrected :: "transposition \<Rightarrow> string \<Rightarrow> string" where
  "corrected tr s =
     (let c = ReplaceAll s (tfrom tr) (tto tr)
      in if c = s then ReplaceAllString (tre tr) s [Text (tto tr)] else c)"

fun tryTranspositions_loop :: "vocab \<Rightarrow> transposition list \<Rightarrow> string \<Rightarrow> string" where
  "tryTranspositions_loop V [] s = []"
| "tryTranspositions_loop V (tr # rest) s =
     (if applicable tr s then
        (let c = corrected tr s;
             ident = lookupLicense V c
         in if ident \<noteq> [] then upgradeGPL ident
            else
              let result = tryTransforms V c
              in if result \<noteq> [] then result else tryTranspositions_loop V rest s)
      else tryTranspositions_loop V rest s)"

definition tryTranspositions :: "vocab \<Rightarrow> string \<Rightarrow> string" where
  "tryTranspositions V s = tryTranspositions_loop V transpositions s"

fun tryLastResorts_loop :: "(string \<times> string) list \<Rightarrow> string \<Rightarrow> string" where
  "tryLastResorts_loop [] upper = []"
| "tryLastResorts_loop (lr # rest) upper =
     (if Contains upper (fst lr) then upgradeGPL (snd lr) else tryLastResorts_loop rest upper)"

definition tryLastResorts :: "string \<Rightarrow> string" where
  "tryLastResorts s = tryLastResorts_loop lastResorts (ToUpper s)"

fun tryTranspositionsWithLastResorts_loop :: "transposition list \<Rightarrow> string \<Rightarrow> string" where
  "tryTranspositionsWithLastResorts_loop [] s = []"
| "tryTranspositionsWithLastResorts_loop (tr # rest) s =
     (if applicable tr s then
        (let result = tryLastResorts (corrected tr s)
         in if result \<noteq> [] then result else tryTranspositionsWithLastResorts_loop rest s)
      else tryTranspositionsWithLastResorts_loop rest s)"

definition tryTranspositionsWithLastResorts :: "string \<Rightarrow> string" where
  "tryTranspositionsWithLastResorts s = tryTranspositionsWithLastResorts_loop transpositions s"

definition Normalize :: "vocab \<Rightarrow> string \<Rightarrow> error + string" where
  "Normalize V license0 =
     (let license = TrimSpace license0 in
      if license = [] then Inl (Sentinel ErrInvalidLicense)
      else if lookupLicense V license \<noteq> [] then Inr (upgradeGPL (lookupLicense V license))
      else
        let noPlus = TrimSuffix (TrimSpace license) ''+'' in
        if noPlus \<noteq> license \<and> lookupLicense V noPlus \<noteq> []
        then Inr (upgradeGPL (lookupLicense V noPlus @ ''+''))
        else if tryTransforms V license \<noteq> [] then Inr (tryTransforms V license)
        else if tryTranspositions V license \<noteq> [] then Inr (tryTranspositions V license)
        else if tryLastResorts license \<noteq> [] then Inr (tryLastResorts license)
        else if tryTranspositionsWithLastResorts license \<noteq> []
        then Inr (tryTranspositionsWithLastResorts license)
        else Inl (Sentinel ErrInvalidLicense))"

section \<open>The pre-processor of \<open>Parse\<close>\<close>

subsection \<open>Splitting a phrase into license terms\<close>

text \<open>
  The inner loop of \<open>normalizeLicenseWords\<close>: the spans \<open>words[i:end]\<close> are tried for
  \<open>end\<close> from the given one down to \<open>i + 1\<close>; the result is the first span that
  normalizes, with its end.
\<close>

function trySpans :: "vocab \<Rightarrow> string list \<Rightarrow> nat \<Rightarrow> nat \<Rightarrow> (string \<times> nat) option" where
  "trySpans V words i end =
     (if end > i then
        (let candidate = Join (take (end - i) (drop i words)) '' '' in
         case Normalize V candidate of
           Inr normalized \<Rightarrow> Some (normalized, end)
         | Inl err \<Rightarrow>
            (let base = TrimSuffix candidate ''+'' in
             case (if HasSuffix candidate ''+'' then Normalize V base else Inl err) of
               Inr normalized \<Rightarrow> Some (upgradeGPL (normalized @ ''+''), end)
             | Inl err \<Rightarrow> trySpans V words i (end - 1)))
      else None)"
  by pat_completeness auto
termination
  by (relation "measure (\<lambda>(V, words, i, end). end)") auto

declare trySpans.simps [simp del]

lemma trySpans_bounds:
  "trySpans V words i e0 = Some (r, e) \<Longrightarrow> i < e \<and> e \<le> e0"
proof (induction V words i e0 rule: trySpans.induct)
  case (1 V words i e0)
  show ?case
  proof (cases "e0 > i")
    case False
    with "1.prems" show ?thesis by (simp add: trySpans.simps [of V words i e0])
  next
    case True
    let ?c = "Join (take (e0 - i) (drop i words)) '' ''"
    show ?thesis
    proof (cases "Normalize V ?c")
      case (Inr n)
      with True "1.prems" show ?thesis by (simp add: trySpans.simps [of V words i e0])
    next
      case (Inl err)
      let ?b = "if HasSuffix ?c ''+'' then Normalize V (TrimSuffix ?c ''+'') else Inl err"
      show ?thesis
      proof (cases ?b)
        case (Inr n)
        with True Inl "1.prems" show ?thesis
          by (simp add: trySpans.simps [of V words i e0] Let_def)
      next
        case Inl2: (Inl err2)
        with True Inl "1.prems" have "trySpans V words i (e0 - 1) = Some (r, e)"
          by (simp add: trySpans.simps [of V words i e0] Let_def)
        with "1.IH" [OF True refl Inl refl Inl2] have "i < e \<and> e \<le> e0 - 1" by simp
        then show ?thesis by arith
      qed
    qed
  qed
qed

text \<open>The outer loop: \<open>i\<close> is the first word not yet consumed, \<open>results\<close> the terms so far.\<close>

function normalizeLicenseWords_loop ::
    "vocab \<Rightarrow> string list \<Rightarrow> nat \<Rightarrow> string list \<Rightarrow> error + string" where
  "normalizeLicenseWords_loop V words i results =
     (if i < length words then
        (case trySpans V words i (length words) of
           Some (normalized, end) \<Rightarrow> normalizeLicenseWords_loop V words end (results @ [normalized])
         | None \<Rightarrow> Inl (LicenseError (words ! i) ErrInvalidLicenseID))
      else Inr (Join results '' ''))"
  by pat_completeness auto
termination
proof (relation "measure (\<lambda>(V, words, i, results). length words - i)")
  show "wf (measure (\<lambda>(V, words, i, results). length words - i))" by simp
next
  fix V :: vocab and words :: "string list" and i :: nat and results :: "string list"
    and x2 :: "string \<times> nat" and normalized :: string and e :: nat
  assume "i < length words" and "trySpans V words i (length words) = Some x2"
    and "(normalized, e) = x2"
  then have "trySpans V words i (length words) = Some (normalized, e)" by simp
  from trySpans_bounds [OF this] have "i < e \<and> e \<le> length words" .
  then have "length words - e < length words - i" by arith
  then show "((V, words, e, results @ [normalized]), (V, words, i, results))
          \<in> measure (\<lambda>(V, words, i, results). length words - i)"
    by simp
qed

declare normalizeLicenseWords_loop.simps [simp del]

definition normalizeLicenseWords :: "vocab \<Rightarrow> string list \<Rightarrow> error + string" where
  "normalizeLicenseWords V words =
     (if length words = 0 then Inl (Sentinel ErrMissingOperand)
      else
        let upper = ToUpper (hd words) in
        if length words = 1 \<and> (upper = ''NONE'' \<or> upper = ''NOASSERTION'') then Inr upper
        else if length words = 1
                \<and> (HasPrefix upper ''LICENSEREF-'' \<or> HasPrefix upper ''DOCUMENTREF-'')
        then Inr (hd words)
        else normalizeLicenseWords_loop V words 0 [])"

subsection \<open>Tokens for normalization\<close>

text \<open>The fields \<open>value\<close>, \<open>isOp\<close>, \<open>isParen\<close> and \<open>isPlus\<close> of a \<open>tokenForNorm\<close>.\<close>

record tokenForNorm =
  nvalue :: string
  isOp :: bool
  isParen :: bool
  isPlus :: bool

text \<open>
  \<open>tokenizeForNormalization\<close> keeps the tokens so far and the word being read
  (\<open>current\<close>); \<open>flushWord\<close> is its closure \<open>flush\<close>.
\<close>

definition flushWord :: "tokenForNorm list \<times> string \<Rightarrow> tokenForNorm list \<times> string" where
  "flushWord st =
     (case st of (tokens, cur) \<Rightarrow>
        if length cur > 0 then
          (let word = cur;
               upper = ToUpper word
           in if upper = ''AND'' \<or> upper = ''OR'' \<or> upper = ''WITH''
              then (tokens @ [\<lparr>nvalue = upper, isOp = True, isParen = False, isPlus = False\<rparr>], [])
              else (tokens @ [\<lparr>nvalue = word, isOp = False, isParen = False, isPlus = False\<rparr>], []))
        else (tokens, cur))"

fun tokenize_loop :: "string \<Rightarrow> tokenForNorm list \<times> string \<Rightarrow> tokenForNorm list \<times> string" where
  "tokenize_loop [] st = st"
| "tokenize_loop (ch # expr) st =
     tokenize_loop expr
       (if ch = CHR ''('' then
          (case flushWord st of (tokens, cur) \<Rightarrow>
             (tokens @ [\<lparr>nvalue = ''('', isOp = False, isParen = True, isPlus = False\<rparr>], cur))
        else if ch = CHR '')'' then
          (case flushWord st of (tokens, cur) \<Rightarrow>
             (tokens @ [\<lparr>nvalue = '')'', isOp = False, isParen = True, isPlus = False\<rparr>], cur))
        else if ch = CHR ''+'' then
          (case flushWord st of (tokens, cur) \<Rightarrow>
             (tokens @ [\<lparr>nvalue = ''+'', isOp = False, isParen = False, isPlus = True\<rparr>], cur))
        else if isSpace ch then flushWord st
        else (case st of (tokens, cur) \<Rightarrow> (tokens, cur @ [ch])))"

definition tokenizeForNormalization :: "string \<Rightarrow> tokenForNorm list" where
  "tokenizeForNormalization expr = fst (flushWord (tokenize_loop expr ([], [])))"

subsection \<open>Normalizing the tokens\<close>

text \<open>
  The three variables of \<open>normalizeTokens\<close> that its closures \<open>flushLicense\<close> and
  \<open>flushException\<close> share: the text written so far, the words collected since the last
  operator or parenthesis, and whether the last operator was \<open>WITH\<close>.
\<close>

record normState =
  result :: string
  licenseWords :: "string list"
  expectException :: bool

definition flushLicense :: "vocab \<Rightarrow> normState \<Rightarrow> error + normState" where
  "flushLicense V st =
     (if length (licenseWords st) = 0 then Inr st
      else
        (case normalizeLicenseWords V (licenseWords st) of
           Inl err \<Rightarrow> Inl err
         | Inr normalized \<Rightarrow>
            (let r = result st;
                 r = (if length r > 0 \<and> \<not> HasSuffix r ''('' then r @ '' '' else r)
             in Inr (st\<lparr>result := r @ normalized, licenseWords := []\<rparr>))))"

definition flushException :: "vocab \<Rightarrow> normState \<Rightarrow> error + normState" where
  "flushException V st =
     (if length (licenseWords st) = 0 then Inr st
      else
        (let exc = Join (licenseWords st) ''-'' in
         if lookupException V exc = [] then
           (let exc = Join (licenseWords st) '' '' in
            if lookupException V exc = [] then Inl (LicenseError exc ErrInvalidException)
            else Inr (st\<lparr>result := result st @ '' '' @ lookupException V exc,
                         licenseWords := []\<rparr>))
         else Inr (st\<lparr>result := result st @ '' '' @ lookupException V exc,
                      licenseWords := []\<rparr>)))"

text \<open>What \<open>normalizeTokens\<close> does before an operator, a parenthesis and the end.\<close>

definition flushPending :: "vocab \<Rightarrow> normState \<Rightarrow> error + normState" where
  "flushPending V st =
     (if expectException st then
        (case flushException V st of
           Inl err \<Rightarrow> Inl err
         | Inr st \<Rightarrow> Inr (st\<lparr>expectException := False\<rparr>))
      else flushLicense V st)"

definition normalizeToken :: "vocab \<Rightarrow> tokenForNorm \<Rightarrow> normState \<Rightarrow> error + normState" where
  "normalizeToken V tok st =
     (if isOp tok then
        (case flushPending V st of
           Inl err \<Rightarrow> Inl err
         | Inr st \<Rightarrow>
            Inr (st\<lparr>result := result st @ '' '' @ nvalue tok,
                    expectException := (if nvalue tok = ''WITH'' then True else expectException st)\<rparr>))
      else if isParen tok then
        (case flushPending V st of
           Inl err \<Rightarrow> Inl err
         | Inr st \<Rightarrow>
            if nvalue tok = ''('' then
              (let r = result st;
                   r = (if length r > 0 \<and> \<not> HasSuffix r ''('' \<and> \<not> HasSuffix r '' ''
                        then r @ '' '' else r)
               in Inr (st\<lparr>result := r @ ''(''\<rparr>))
            else Inr (st\<lparr>result := result st @ '')''\<rparr>))
      else if isPlus tok then
        (if length (licenseWords st) > 0
         then Inr (st\<lparr>licenseWords := butlast (licenseWords st) @ [last (licenseWords st) @ ''+'']\<rparr>)
         else Inr st)
      else Inr (st\<lparr>licenseWords := licenseWords st @ [nvalue tok]\<rparr>))"

fun normalizeTokens_loop :: "vocab \<Rightarrow> tokenForNorm list \<Rightarrow> normState \<Rightarrow> error + normState" where
  "normalizeTokens_loop V [] st = Inr st"
| "normalizeTokens_loop V (tok # tokens) st =
     (case normalizeToken V tok st of
        Inl err \<Rightarrow> Inl err
      | Inr st \<Rightarrow> normalizeTokens_loop V tokens st)"

definition normalizeTokens :: "vocab \<Rightarrow> tokenForNorm list \<Rightarrow> error + string" where
  "normalizeTokens V tokens =
     (case normalizeTokens_loop V tokens
             \<lparr>result = [], licenseWords = [], expectException = False\<rparr> of
        Inl err \<Rightarrow> Inl err
      | Inr st \<Rightarrow>
         (case (if expectException st then flushException V st else flushLicense V st) of
            Inl err \<Rightarrow> Inl err
          | Inr st \<Rightarrow> Inr (TrimSpace (result st))))"

definition normalizeExpressionString :: "vocab \<Rightarrow> string \<Rightarrow> error + string" where
  "normalizeExpressionString V expr = normalizeTokens V (tokenizeForNormalization expr)"

section \<open>The entry point \<open>Parse\<close>\<close>

definition Parse :: "vocab \<Rightarrow> string \<Rightarrow> (error + Expression) option" where
  "Parse V expression =
     (let expression = TrimSpace expression in
      if expression = [] then Some (Inl (Sentinel ErrEmptyExpression))
      else
        (case normalizeExpressionString V expression of
           Inl err \<Rightarrow> Some (Inl err)
         | Inr normalized \<Rightarrow> parse_run V normalized))"

section \<open>A vocabulary to run the program on\<close>

text \<open>
  Some identifiers of the SPDX license list, as the three functions of \<open>spdxlicenses\<close>
  return them: current licenses, deprecated licenses, exceptions.
\<close>

definition exampleVocab :: vocab where
  "exampleVocab =
     \<lparr>GetLicenses = [''MIT'', ''Apache-2.0'', ''BSD-2-Clause'', ''BSD-3-Clause'',
                      ''GPL-2.0-only'', ''GPL-2.0-or-later'', ''GPL-3.0-only'',
                      ''GPL-3.0-or-later'', ''LGPL-2.1-only'', ''LGPL-2.1-or-later''],
      GetDeprecated = [''GPL-2.0'', ''GPL-2.0+'', ''GPL-3.0'', ''GPL-3.0+'',
                        ''LGPL-2.1'', ''LGPL-2.1+'', ''AGPL-1.0'', ''AGPL-3.0''],
      GetExceptions = [''Classpath-exception-2.0'']\<rparr>"

section \<open>The specification's view of an expression\<close>

text \<open>
  The leaves of an expression from left to right, and what the specification says one leaf
  gives to \<open>Licenses()\<close>: a license its identifier, a license reference its rendered
  text, a special value nothing.
\<close>

fun leaves :: "Expression \<Rightarrow> Expression list" where
  "leaves (AndExpression l r) = leaves l @ leaves r"
| "leaves (OrExpression l r) = leaves l @ leaves r"
| "leaves e = [e]"

fun leafIdentifiers :: "Expression \<Rightarrow> string list" where
  "leafIdentifiers (License i p x) = [i]"
| "leafIdentifiers (LicenseRef d l) =
     [if d = [] then ''LicenseRef-'' @ l else ''DocumentRef-'' @ d @ '':LicenseRef-'' @ l]"
| "leafIdentifiers e = []"

section \<open>Running the program on a given text\<close>

text \<open>
  \<open>TrimSpace\<close> leaves a text as it is when its first and its last byte are ASCII
  characters other than white space, and removes every text made of white space.
\<close>

definition plainByte :: "char \<Rightarrow> bool" where
  "plainByte c \<longleftrightarrow> of_char c < (128 :: nat) \<and> \<not> isSpace c"

lemma HasPrefix_hd: "HasPrefix s r \<Longrightarrow> r \<noteq> [] \<Longrightarrow> s \<noteq> [] \<and> hd s = hd r"
  by (cases s; cases r) (auto simp: HasPrefix_def)

lemma HasSuffix_last: "HasSuffix s r \<Longrightarrow> r \<noteq> [] \<Longrightarrow> s \<noteq> [] \<and> last s = last r"
proof -
  assume a: "HasSuffix s r" and r: "r \<noteq> []"
  then have d: "drop (length s - length r) s = r" and l: "length r \<le> length s"
    by (simp_all add: HasSuffix_def)
  from l r have s: "s \<noteq> []" by auto
  with l r have "length s - length r < length s" by (cases r) auto
  from last_drop [OF this] d have "last s = last r" by simp
  with s show ?thesis by simp
qed

lemma spaceRunes_hd: "r \<in> set spaceRunes \<Longrightarrow> \<not> plainByte (hd r)"
  by (auto simp: spaceRunes_def plainByte_def isSpace_def)

lemma spaceRunes_last: "r \<in> set spaceRunes \<Longrightarrow> \<not> plainByte (last r)"
  by (auto simp: spaceRunes_def plainByte_def isSpace_def)

lemma trimLeftSpace_plain: "plainByte (hd s) \<Longrightarrow> trimLeftSpace s = s"
proof -
  assume a: "plainByte (hd s)"
  have "find (HasPrefix s) spaceRunes = None"
    unfolding find_None_iff
    using a HasPrefix_hd [of s] spaceRunes_hd spaceRunes_not_empty by metis
  then show ?thesis by (simp add: trimLeftSpace.simps [of s])
qed

lemma trimRightSpace_plain: "plainByte (last s) \<Longrightarrow> trimRightSpace s = s"
proof -
  assume a: "plainByte (last s)"
  have "find (HasSuffix s) spaceRunes = None"
    unfolding find_None_iff
    using a HasSuffix_last [of s] spaceRunes_last spaceRunes_not_empty by metis
  then show ?thesis by (simp add: trimRightSpace.simps [of s])
qed

lemma TrimSpace_plain: "plainByte (hd s) \<Longrightarrow> plainByte (last s) \<Longrightarrow> TrimSpace s = s"
  by (simp add: TrimSpace_def trimLeftSpace_plain trimRightSpace_plain)

lemma trimLeftSpace_Nil: "trimLeftSpace [] = []"
proof -
  have "find (HasPrefix []) spaceRunes = None"
    unfolding find_None_iff using HasPrefix_hd [of "[]"] spaceRunes_not_empty by blast
  then show ?thesis by (simp add: trimLeftSpace.simps [of "[]"])
qed

lemma trimRightSpace_Nil: "trimRightSpace [] = []"
proof -
  have "find (HasSuffix []) spaceRunes = None"
    unfolding find_None_iff using HasSuffix_last [of "[]"] spaceRunes_not_empty by blast
  then show ?thesis by (simp add: trimRightSpace.simps [of "[]"])
qed

lemma TrimSpace_Nil: "TrimSpace [] = []"
  by (simp add: TrimSpace_def trimLeftSpace_Nil trimRightSpace_Nil)

text \<open>The first byte of an encoding gives its length, so no encoding begins another one.\<close>

definition runeLen :: "char \<Rightarrow> nat" where
  "runeLen c = (if of_char c < (128 :: nat) then 1 else if c = CHR 0xC2 then 2 else 3)"

lemma spaceRunes_length: "r \<in> set spaceRunes \<Longrightarrow> length r = runeLen (hd r)"
  by (auto simp: spaceRunes_def runeLen_def)

lemma trimLeftSpace_rune:
  assumes "r \<in> set spaceRunes"
  shows "trimLeftSpace (r @ s) = trimLeftSpace s"
proof -
  have r: "r \<noteq> []" using assms by (rule spaceRunes_not_empty)
  have "HasPrefix (r @ s) r" by (simp add: HasPrefix_def)
  with assms obtain q where f: "find (HasPrefix (r @ s)) spaceRunes = Some q"
    by (cases "find (HasPrefix (r @ s)) spaceRunes") (auto simp: find_None_iff)
  then have q: "q \<in> set spaceRunes" and h: "HasPrefix (r @ s) q"
    by (auto simp: find_Some_iff)
  from q have "q \<noteq> []" by (rule spaceRunes_not_empty)
  from HasPrefix_hd [OF h this] r have "hd q = hd r" by simp
  with spaceRunes_length [OF q] spaceRunes_length [OF assms] have "length q = length r" by simp
  with h have "q = r" by (simp add: HasPrefix_def)
  with f show ?thesis by (simp add: trimLeftSpace.simps [of "r @ s"])
qed

lemma trimLeftSpace_runes: "set rs \<subseteq> set spaceRunes \<Longrightarrow> trimLeftSpace (concat rs) = []"
  by (induction rs) (simp_all add: trimLeftSpace_Nil trimLeftSpace_rune)

lemma TrimSpace_runes: "set rs \<subseteq> set spaceRunes \<Longrightarrow> TrimSpace (concat rs) = []"
  by (simp add: TrimSpace_def trimLeftSpace_runes trimRightSpace_Nil)

lemmas golib_defs = isSpace_def plainByte_def upperByte_def lowerByte_def ToUpper_def
  ToLower_def TrimSpace_plain TrimSpace_Nil HasPrefix_def HasSuffix_def TrimSuffix_def
  Contains_def

lemmas lexer_defs = lexer_next_def skipWhitespace_def wordByte_def newParser_def advance_def

lemmas parse_numeral =
  parseExpression.simps(2) [of _ "pred_numeral k" for k, folded numeral_eq_Suc]
  parseExpression_loop.simps(2) [of _ "pred_numeral k" for k, folded numeral_eq_Suc]
  parseAnd.simps(2) [of _ "pred_numeral k" for k, folded numeral_eq_Suc]
  parseAnd_loop.simps(2) [of _ "pred_numeral k" for k, folded numeral_eq_Suc]
  parseWith.simps(2) [of _ "pred_numeral k" for k, folded numeral_eq_Suc]
  parseAtom.simps(2) [of _ "pred_numeral k" for k, folded numeral_eq_Suc]

lemmas parse_defs = parse_numeral parse_run_def parse_fuel_def lexer_defs golib_defs

lemmas normalizeTokens_defs = normalizeTokens_def normalizeToken_def flushPending_def
  flushLicense_def flushException_def

lemma Normalize_exact:
  "TrimSpace w = w \<Longrightarrow> w \<noteq> [] \<Longrightarrow> lookupLicense V w \<noteq> [] \<Longrightarrow>
   Normalize V w = Inr (upgradeGPL (lookupLicense V w))"
  by (simp add: Normalize_def Let_def)

lemma Normalize_plus:
  "TrimSpace w = w \<Longrightarrow> w \<noteq> [] \<Longrightarrow> lookupLicense V w = [] \<Longrightarrow>
   TrimSuffix w ''+'' \<noteq> w \<Longrightarrow> lookupLicense V (TrimSuffix w ''+'') \<noteq> [] \<Longrightarrow>
   Normalize V w = Inr (upgradeGPL (lookupLicense V (TrimSuffix w ''+'') @ ''+''))"
  by (simp add: Normalize_def Let_def)

lemma normalizeLicenseWords_one:
  assumes "Normalize V w = Inr r"
    and "ToUpper w \<noteq> ''NONE''" "ToUpper w \<noteq> ''NOASSERTION''"
    and "\<not> HasPrefix (ToUpper w) ''LICENSEREF-''" "\<not> HasPrefix (ToUpper w) ''DOCUMENTREF-''"
  shows "normalizeLicenseWords V [w] = Inr r"
  using assms
  by (simp add: normalizeLicenseWords_def Let_def normalizeLicenseWords_loop.simps [of V "[w]" 0]
      normalizeLicenseWords_loop.simps [of V "[w]" "Suc 0"]
      trySpans.simps [of V "[w]" 0 "Suc 0"])


section \<open>The licenses of an expression\<close>

lemma Licenses_leaves: "Licenses e = concat (map leafIdentifiers (leaves e))"
  by (induction e) simp_all

lemma normalize_gpl_with_classpath:
  assumes "lookupLicense V ''GPL-2.0-only'' = ''GPL-2.0-only''"
    and "lookupException V ''Classpath-exception-2.0'' = ''Classpath-exception-2.0''"
  shows "normalizeExpressionString V ''GPL-2.0-only WITH Classpath-exception-2.0'' =
           Inr ''GPL-2.0-only WITH Classpath-exception-2.0''"
proof -
  have t: "tokenizeForNormalization ''GPL-2.0-only WITH Classpath-exception-2.0'' =
    [\<lparr>nvalue = ''GPL-2.0-only'', isOp = False, isParen = False, isPlus = False\<rparr>,
     \<lparr>nvalue = ''WITH'', isOp = True, isParen = False, isPlus = False\<rparr>,
     \<lparr>nvalue = ''Classpath-exception-2.0'', isOp = False, isParen = False, isPlus = False\<rparr>]"
    by code_simp
  have n: "Normalize V ''GPL-2.0-only'' = Inr ''GPL-2.0-only''"
    using assms by (simp add: Normalize_exact golib_defs upgradeGPL_def)
  have w: "normalizeLicenseWords V [''GPL-2.0-only''] = Inr ''GPL-2.0-only''"
    by (rule normalizeLicenseWords_one [OF n]) (simp_all add: golib_defs)
  show ?thesis
    unfolding normalizeExpressionString_def t
    using assms w by (simp add: normalizeTokens_defs golib_defs)
qed

lemma parse_gpl_with_classpath:
  assumes "lookupLicense V ''GPL-2.0-only'' = ''GPL-2.0-only''"
    and "lookupException V ''Classpath-exception-2.0'' = ''Classpath-exception-2.0''"
  shows "Parse V ''GPL-2.0-only WITH Classpath-exception-2.0'' =
           Some (Inr (License ''GPL-2.0-only'' False ''Classpath-exception-2.0''))"
proof -
  have r: "parse_run V ''GPL-2.0-only WITH Classpath-exception-2.0'' =
           Some (Inr (License ''GPL-2.0-only'' False ''Classpath-exception-2.0''))"
    using assms by (simp add: parse_defs)
  have t: "TrimSpace ''GPL-2.0-only WITH Classpath-exception-2.0'' =
             ''GPL-2.0-only WITH Classpath-exception-2.0''"
    by (simp add: golib_defs)
  show ?thesis
    by (simp add: Parse_def t normalize_gpl_with_classpath [OF assms] r)
qed

text \<open>
  Claim C9. \<open>Licenses()\<close> is the list of the identifiers of the \<open>License\<close> and
  \<open>LicenseRef\<close> leaves from left to right, with repetitions: an \<open>AND\<close> or \<open>OR\<close> node gives
  the list of its left child followed by that of its right child, a \<open>License\<close> gives its
  identifier and nothing for its exception, a \<open>LicenseRef\<close> gives its rendered text, and a
  special value gives nothing. So the licenses of
  \<open>Parse("GPL-2.0-only WITH Classpath-exception-2.0")\<close> are \<open>["GPL-2.0-only"]\<close>, in
  every vocabulary that has this license and this exception.
\<close>

theorem Licenses_left_to_right:
  assumes "lookupLicense V ''GPL-2.0-only'' = ''GPL-2.0-only''"
    and "lookupException V ''Classpath-exception-2.0'' = ''Classpath-exception-2.0''"
  shows "Licenses e = concat (map leafIdentifiers (leaves e))
    \<and> Licenses (AndExpression l r) = Licenses l @ Licenses r
    \<and> Licenses (OrExpression l r) = Licenses l @ Licenses r
    \<and> Licenses (License i p x) = [i]
    \<and> Licenses (LicenseRef d lr) = [String (LicenseRef d lr)]
    \<and> Licenses (SpecialValue v) = []
    \<and> length (Licenses e) = length (filter (\<lambda>leaf. \<not> is_SpecialValue leaf) (leaves e))
    \<and> (\<exists>t. Parse V ''GPL-2.0-only WITH Classpath-exception-2.0'' = Some (Inr t)
           \<and> Exception t = ''Classpath-exception-2.0''
           \<and> Licenses t = [''GPL-2.0-only''])"
proof -
  have len: "length (Licenses e) = length (filter (\<lambda>leaf. \<not> is_SpecialValue leaf) (leaves e))"
    by (induction e) simp_all
  have ex: "\<exists>t. Parse V ''GPL-2.0-only WITH Classpath-exception-2.0'' = Some (Inr t)
           \<and> Exception t = ''Classpath-exception-2.0''
           \<and> Licenses t = [''GPL-2.0-only'']"
    by (simp add: parse_gpl_with_classpath [OF assms])
  show ?thesis
    using len ex by (simp add: Licenses_leaves)
qed

theorem Licenses_left_to_right_witness:
  "lookupLicense exampleVocab ''GPL-2.0-only'' = ''GPL-2.0-only''
   \<and> lookupException exampleVocab ''Classpath-exception-2.0'' = ''Classpath-exception-2.0''
   \<and> Licenses (OrExpression (License ''MIT'' False []) (License ''MIT'' True ''x'')) =
       [''MIT'', ''MIT'']
   \<and> (\<exists>t. Parse exampleVocab ''GPL-2.0-only WITH Classpath-exception-2.0'' = Some (Inr t)
           \<and> Licenses t = [''GPL-2.0-only''])"
proof -
  have h1: "lookupLicense exampleVocab ''GPL-2.0-only'' = ''GPL-2.0-only''" by code_simp
  have h2: "lookupException exampleVocab ''Classpath-exception-2.0'' = ''Classpath-exception-2.0''"
    by code_simp
  from Licenses_left_to_right [OF h1 h2,
      of "OrExpression (License ''MIT'' False []) (License ''MIT'' True ''x'')"]
  show ?thesis using h1 h2 by auto
qed

section \<open>Precedence and associativity\<close>













section \<open>Malformed input\<close>

lemma norm_unbalanced:
  assumes "lookupLicense V ''MIT'' = ''MIT''"
  shows "normalizeExpressionString V ''((MIT)'' = Inr ''((MIT)''"
proof -
  have t: "tokenizeForNormalization ''((MIT)'' =
    [\<lparr>nvalue = ''('', isOp = False, isParen = True, isPlus = False\<rparr>,
     \<lparr>nvalue = ''('', isOp = False, isParen = True, isPlus = False\<rparr>,
     \<lparr>nvalue = ''MIT'', isOp = False, isParen = False, isPlus = False\<rparr>,
     \<lparr>nvalue = '')'', isOp = False, isParen = True, isPlus = False\<rparr>]"
    by code_simp
  have n1: "Normalize V ''MIT'' = Inr ''MIT''"
    using assms by (simp add: Normalize_exact golib_defs upgradeGPL_def)
  have w1: "normalizeLicenseWords V [''MIT''] = Inr ''MIT''"
    by (rule normalizeLicenseWords_one [OF n1]) (simp_all add: golib_defs)
  show ?thesis
    unfolding normalizeExpressionString_def t
    using assms w1 by (simp add: normalizeTokens_defs golib_defs)
qed

lemma parse_unbalanced:
  assumes "lookupLicense V ''MIT'' = ''MIT''"
  shows "Parse V ''((MIT)'' = Some (Inl (Sentinel ErrUnbalancedParens))"
proof -
  have r: "parse_run V ''((MIT)'' = Some (Inl (Sentinel ErrUnbalancedParens))"
    using assms by (simp add: parse_defs)
  have t: "TrimSpace ''((MIT)'' = ''((MIT)''"
    by (simp add: golib_defs)
  show ?thesis
    by (simp add: Parse_def t norm_unbalanced [OF assms] r)
qed

lemma norm_mit_and:
  assumes "lookupLicense V ''MIT'' = ''MIT''"
  shows "normalizeExpressionString V ''MIT AND'' = Inr ''MIT AND''"
proof -
  have t: "tokenizeForNormalization ''MIT AND'' =
    [\<lparr>nvalue = ''MIT'', isOp = False, isParen = False, isPlus = False\<rparr>,
     \<lparr>nvalue = ''AND'', isOp = True, isParen = False, isPlus = False\<rparr>]"
    by code_simp
  have n1: "Normalize V ''MIT'' = Inr ''MIT''"
    using assms by (simp add: Normalize_exact golib_defs upgradeGPL_def)
  have w1: "normalizeLicenseWords V [''MIT''] = Inr ''MIT''"
    by (rule normalizeLicenseWords_one [OF n1]) (simp_all add: golib_defs)
  show ?thesis
    unfolding normalizeExpressionString_def t
    using assms w1 by (simp add: normalizeTokens_defs golib_defs)
qed

lemma parse_mit_and:
  assumes "lookupLicense V ''MIT'' = ''MIT''"
  shows "Parse V ''MIT AND'' = Some (Inl (Sentinel ErrMissingOperand))"
proof -
  have r: "parse_run V ''MIT AND'' = Some (Inl (Sentinel ErrMissingOperand))"
    using assms by (simp add: parse_defs)
  have t: "TrimSpace ''MIT AND'' = ''MIT AND''"
    by (simp add: golib_defs)
  show ?thesis
    by (simp add: Parse_def t norm_mit_and [OF assms] r)
qed

text \<open>
  Claim C8. \<open>Parse\<close> returns \<open>ErrEmptyExpression\<close> for the empty text and for every text
  of white space only, that is, every sequence of white space code points in UTF-8
  (the ASCII ones, and the others that \<open>strings.TrimSpace\<close> removes, such as U+00A0);
  \<open>Parse("((MIT)")\<close> fails with \<open>ErrUnbalancedParens\<close>, which is not the error of an
  unexpected token; \<open>Parse("MIT AND")\<close> fails with \<open>ErrMissingOperand\<close>; and \<open>errors.Is\<close>
  tells the three errors apart. \<open>MIT\<close> is a license of the vocabulary.
\<close>

theorem malformed_input_errors:
  assumes "lookupLicense V ''MIT'' = ''MIT''"
  shows "Parse V [] = Some (Inl (Sentinel ErrEmptyExpression))
    \<and> (set rs \<subseteq> set spaceRunes \<longrightarrow>
          Parse V (concat rs) = Some (Inl (Sentinel ErrEmptyExpression)))
    \<and> Parse V ''((MIT)'' = Some (Inl (Sentinel ErrUnbalancedParens))
    \<and> Parse V ''MIT AND'' = Some (Inl (Sentinel ErrMissingOperand))
    \<and> (\<forall>k. errorsIs (Sentinel ErrEmptyExpression) k \<longleftrightarrow> k = ErrEmptyExpression)
    \<and> (\<forall>k. errorsIs (Sentinel ErrUnbalancedParens) k \<longleftrightarrow> k = ErrUnbalancedParens)
    \<and> (\<forall>k. errorsIs (Sentinel ErrMissingOperand) k \<longleftrightarrow> k = ErrMissingOperand)
    \<and> \<not> errorsIs (Sentinel ErrUnbalancedParens) ErrUnexpectedToken
    \<and> ErrEmptyExpression \<noteq> ErrUnbalancedParens \<and> ErrEmptyExpression \<noteq> ErrMissingOperand
    \<and> ErrUnbalancedParens \<noteq> ErrMissingOperand"
proof -
  have empty: "set rs \<subseteq> set spaceRunes \<longrightarrow>
      Parse V (concat rs) = Some (Inl (Sentinel ErrEmptyExpression))" for rs
    by (simp add: Parse_def TrimSpace_runes)
  from empty [of "[]"] have nil: "Parse V [] = Some (Inl (Sentinel ErrEmptyExpression))"
    by simp
  show ?thesis
    using empty [of rs] nil
    by (auto simp: parse_unbalanced [OF assms] parse_mit_and [OF assms])
qed

theorem malformed_input_errors_witness:
  "lookupLicense exampleVocab ''MIT'' = ''MIT''
   \<and> Parse exampleVocab [CHR 0x20, CHR 0xC2, CHR 0xA0, CHR 0x09, CHR 0xE3, CHR 0x80, CHR 0x80]
       = Some (Inl (Sentinel ErrEmptyExpression))
   \<and> Parse exampleVocab ''((MIT)'' = Some (Inl (Sentinel ErrUnbalancedParens))
   \<and> Parse exampleVocab ''MIT AND'' = Some (Inl (Sentinel ErrMissingOperand))"
proof -
  have h: "lookupLicense exampleVocab ''MIT'' = ''MIT''" by code_simp
  have sp: "set [[CHR 0x20], [CHR 0xC2, CHR 0xA0], [CHR 0x09], [CHR 0xE3, CHR 0x80, CHR 0x80]]
      \<subseteq> set spaceRunes"
    by (simp add: spaceRunes_def)
  from malformed_input_errors
    [OF h, of "[[CHR 0x20], [CHR 0xC2, CHR 0xA0], [CHR 0x09], [CHR 0xE3, CHR 0x80, CHR 0x80]]"] sp
  show ?thesis using h by simp
qed

section \<open>The or-later flag\<close>

lemma norm_apache_plus:
  assumes "lookupLicense V ''Apache-2.0'' = ''Apache-2.0''"
    and "lookupLicense V ''Apache-2.0+'' = []"
  shows "normalizeExpressionString V ''Apache-2.0+'' = Inr ''Apache-2.0+''"
proof -
  have t: "tokenizeForNormalization ''Apache-2.0+'' =
    [\<lparr>nvalue = ''Apache-2.0'', isOp = False, isParen = False, isPlus = False\<rparr>,
     \<lparr>nvalue = ''+'', isOp = False, isParen = False, isPlus = True\<rparr>]"
    by code_simp
  have n1: "Normalize V ''Apache-2.0+'' = Inr ''Apache-2.0+''"
    using assms by (simp add: Normalize_plus golib_defs upgradeGPL_def)
  have w1: "normalizeLicenseWords V [''Apache-2.0+''] = Inr ''Apache-2.0+''"
    by (rule normalizeLicenseWords_one [OF n1]) (simp_all add: golib_defs)
  show ?thesis
    unfolding normalizeExpressionString_def t
    using assms w1 by (simp add: normalizeTokens_defs golib_defs)
qed

lemma parse_apache_plus:
  assumes "lookupLicense V ''Apache-2.0'' = ''Apache-2.0''"
    and "lookupLicense V ''Apache-2.0+'' = []"
  shows "Parse V ''Apache-2.0+'' = Some (Inr (License ''Apache-2.0'' True []))"
proof -
  have r: "parse_run V ''Apache-2.0+'' = Some (Inr (License ''Apache-2.0'' True []))"
    using assms by (simp add: parse_defs)
  have t: "TrimSpace ''Apache-2.0+'' = ''Apache-2.0+''"
    by (simp add: golib_defs)
  show ?thesis
    by (simp add: Parse_def t norm_apache_plus [OF assms] r)
qed

text \<open>
  Claim C10. A \<open>License\<close> leaf with the or-later flag gives \<open>Licenses()\<close> its identifier
  without the \<open>+\<close>, the same list as the leaf without the flag, while \<open>String()\<close> writes
  the \<open>+\<close> after the identifier: \<open>Parse("Apache-2.0+")\<close> is the license \<open>Apache-2.0\<close>
  with the flag, its licenses are \<open>["Apache-2.0"]\<close> and its rendering is \<open>"Apache-2.0+"\<close>.
  The vocabulary has the license \<open>Apache-2.0\<close> and no license \<open>Apache-2.0+\<close>.
\<close>

theorem plus_flag_not_in_Licenses:
  assumes "lookupLicense V ''Apache-2.0'' = ''Apache-2.0''"
    and "lookupLicense V ''Apache-2.0+'' = []"
  shows "Licenses (License i True x) = [i]
    \<and> Licenses (License i True x) = Licenses (License i False x)
    \<and> String (License i True []) = i @ ''+''
    \<and> String (License i True []) \<noteq> String (License i False [])
    \<and> (\<exists>t. Parse V ''Apache-2.0+'' = Some (Inr t) \<and> Plus t
           \<and> Licenses t = [''Apache-2.0''] \<and> String t = ''Apache-2.0+'')"
  by (simp add: parse_apache_plus [OF assms])

theorem plus_flag_not_in_Licenses_witness:
  "lookupLicense exampleVocab ''Apache-2.0'' = ''Apache-2.0''
   \<and> lookupLicense exampleVocab ''Apache-2.0+'' = []
   \<and> (\<exists>t. Parse exampleVocab ''Apache-2.0+'' = Some (Inr t) \<and> Plus t
           \<and> Licenses t = [''Apache-2.0''] \<and> String t = ''Apache-2.0+'')"
proof -
  have h1: "lookupLicense exampleVocab ''Apache-2.0'' = ''Apache-2.0''" by code_simp
  have h2: "lookupLicense exampleVocab ''Apache-2.0+'' = []" by code_simp
  from plus_flag_not_in_Licenses [OF h1 h2]
  show ?thesis using h1 h2 by blast
qed

section \<open>The deprecated-identifier upgrade\<close>

lemma upgradeGPL_idempotent: "upgradeGPL (upgradeGPL license) = upgradeGPL license"
  by (auto simp: upgradeGPL_def golib_defs)

text \<open>
  Claim C3, where the program departs from it. \<open>upgradeGPL\<close> adds \<open>-only\<close> to \<open>LGPL-1.0\<close>
  and to \<open>AGPL-2.0\<close>, but its list of the forms with a \<open>+\<close> has neither \<open>LGPL-1.0+\<close>
  nor \<open>AGPL-2.0+\<close>: both are returned as they are, also by \<open>Normalize\<close> in a vocabulary
  that has \<open>LGPL-1.0\<close> and \<open>AGPL-2.0\<close>. In a vocabulary without them (as the SPDX list),
  \<open>Normalize("LGPL-1.0+")\<close> is answered by the last-resort table with \<open>LGPL-1.0-only\<close>.
  The claim says \<open>LGPL-1.0-or-later\<close> and \<open>AGPL-2.0-or-later\<close>.
\<close>

theorem upgradeGPL_plus_forms_missing:
  "upgradeGPL ''LGPL-1.0'' = ''LGPL-1.0-only''
   \<and> upgradeGPL ''AGPL-2.0'' = ''AGPL-2.0-only''
   \<and> upgradeGPL ''LGPL-1.0+'' = ''LGPL-1.0+''
   \<and> upgradeGPL ''AGPL-2.0+'' = ''AGPL-2.0+''
   \<and> Normalize (exampleVocab\<lparr>GetDeprecated := [''LGPL-1.0'', ''AGPL-2.0'']\<rparr>) ''LGPL-1.0+''
         = Inr ''LGPL-1.0+''
   \<and> Normalize (exampleVocab\<lparr>GetDeprecated := [''LGPL-1.0'', ''AGPL-2.0'']\<rparr>) ''AGPL-2.0+''
         = Inr ''AGPL-2.0+''
   \<and> Normalize exampleVocab ''LGPL-1.0+'' = Inr ''LGPL-1.0-only''"
proof -
  have a: "upgradeGPL ''LGPL-1.0'' = ''LGPL-1.0-only''" by code_simp
  have b: "upgradeGPL ''AGPL-2.0'' = ''AGPL-2.0-only''" by code_simp
  have c: "upgradeGPL ''LGPL-1.0+'' = ''LGPL-1.0+''" by code_simp
  have d: "upgradeGPL ''AGPL-2.0+'' = ''AGPL-2.0+''" by code_simp
  have e: "Normalize (exampleVocab\<lparr>GetDeprecated := [''LGPL-1.0'', ''AGPL-2.0'']\<rparr>) ''LGPL-1.0+''
         = Inr ''LGPL-1.0+''" by code_simp
  have f: "Normalize (exampleVocab\<lparr>GetDeprecated := [''LGPL-1.0'', ''AGPL-2.0'']\<rparr>) ''AGPL-2.0+''
         = Inr ''AGPL-2.0+''" by code_simp
  have g: "Normalize exampleVocab ''LGPL-1.0+'' = Inr ''LGPL-1.0-only''" by code_simp
  from a b c d e f g show ?thesis by blast
qed

section \<open>Special values inside an expression\<close>

text \<open>
  Claim C6, where the program departs from it. \<open>parseAtom\<close> returns a \<open>SpecialValue\<close> like
  any other atom and the loops of \<open>parseAnd\<close> and \<open>parseExpression\<close> combine it:
  \<open>Parse("NONE AND MIT")\<close> and \<open>ParseStrict("MIT OR NOASSERTION")\<close> succeed with a special
  value as a child of \<open>AND\<close> and of \<open>OR\<close>. The error \<open>ErrInvalidSpecialValue\<close>
  ("NONE and NOASSERTION must be standalone") is declared and never returned. A special
  value followed by \<open>WITH\<close> is refused.
\<close>

theorem special_value_as_operand:
  "Parse exampleVocab ''NONE AND MIT'' =
      Some (Inr (AndExpression (SpecialValue ''NONE'') (License ''MIT'' False [])))
   \<and> ParseStrict exampleVocab ''NONE AND MIT'' =
      Some (Inr (AndExpression (SpecialValue ''NONE'') (License ''MIT'' False [])))
   \<and> Parse exampleVocab ''MIT OR NOASSERTION'' =
      Some (Inr (OrExpression (License ''MIT'' False []) (SpecialValue ''NOASSERTION'')))
   \<and> ParseStrict exampleVocab ''MIT OR NOASSERTION'' =
      Some (Inr (OrExpression (License ''MIT'' False []) (SpecialValue ''NOASSERTION'')))
   \<and> Parse exampleVocab ''NONE WITH Classpath-exception-2.0'' =
      Some (Inl (Errorf ErrUnexpectedToken ''WITH can only follow a license''))"
proof -
  have a: "Parse exampleVocab ''NONE AND MIT'' =
      Some (Inr (AndExpression (SpecialValue ''NONE'') (License ''MIT'' False [])))"
    by code_simp
  have b: "ParseStrict exampleVocab ''NONE AND MIT'' =
      Some (Inr (AndExpression (SpecialValue ''NONE'') (License ''MIT'' False [])))"
    by code_simp
  have c: "Parse exampleVocab ''MIT OR NOASSERTION'' =
      Some (Inr (OrExpression (License ''MIT'' False []) (SpecialValue ''NOASSERTION'')))"
    by code_simp
  have d: "ParseStrict exampleVocab ''MIT OR NOASSERTION'' =
      Some (Inr (OrExpression (License ''MIT'' False []) (SpecialValue ''NOASSERTION'')))"
    by code_simp
  have e: "Parse exampleVocab ''NONE WITH Classpath-exception-2.0'' =
      Some (Inl (Errorf ErrUnexpectedToken ''WITH can only follow a license''))"
    by code_simp
  from a b c d e show ?thesis by blast
qed

section \<open>The operand of \<open>WITH\<close>\<close>

text \<open>
  Claim C5, where the program departs from it. \<open>parseWith\<close> asks whether the atom it got
  is a \<open>License\<close> node, and the atom of \<open>(MIT)\<close> is one: \<open>Parse\<close> and \<open>ParseStrict\<close>
  accept \<open>(MIT) WITH Classpath-exception-2.0\<close> and attach the exception to \<open>MIT\<close>. The
  rest of the claim holds on these inputs: \<open>WITH\<close> after a parenthesized \<open>OR\<close> is refused,
  the exception is found whatever the case of its letters, and a word that is not an
  exception gives \<open>ErrInvalidException\<close>.
\<close>

theorem with_after_parenthesized_license:
  "Parse exampleVocab ''(MIT) WITH Classpath-exception-2.0'' =
      Some (Inr (License ''MIT'' False ''Classpath-exception-2.0''))
   \<and> ParseStrict exampleVocab ''(MIT) WITH Classpath-exception-2.0'' =
      Some (Inr (License ''MIT'' False ''Classpath-exception-2.0''))
   \<and> Parse exampleVocab ''(MIT OR Apache-2.0) WITH Classpath-exception-2.0'' =
      Some (Inl (Errorf ErrUnexpectedToken ''WITH can only follow a license''))
   \<and> Parse exampleVocab ''MIT WITH classpath-EXCEPTION-2.0'' =
      Some (Inr (License ''MIT'' False ''Classpath-exception-2.0''))
   \<and> Parse exampleVocab ''MIT WITH Classpath-exception'' =
      Some (Inl (LicenseError ''Classpath-exception'' ErrInvalidException))
   \<and> ParseStrict exampleVocab ''MIT WITH Classpath-exception'' =
      Some (Inl (Errorf ErrInvalidException ''Classpath-exception''))"
proof -
  have a: "Parse exampleVocab ''(MIT) WITH Classpath-exception-2.0'' =
      Some (Inr (License ''MIT'' False ''Classpath-exception-2.0''))"
    by code_simp
  have b: "ParseStrict exampleVocab ''(MIT) WITH Classpath-exception-2.0'' =
      Some (Inr (License ''MIT'' False ''Classpath-exception-2.0''))"
    by code_simp
  have c: "Parse exampleVocab ''(MIT OR Apache-2.0) WITH Classpath-exception-2.0'' =
      Some (Inl (Errorf ErrUnexpectedToken ''WITH can only follow a license''))"
    by code_simp
  have d: "Parse exampleVocab ''MIT WITH classpath-EXCEPTION-2.0'' =
      Some (Inr (License ''MIT'' False ''Classpath-exception-2.0''))"
    by code_simp
  have e: "Parse exampleVocab ''MIT WITH Classpath-exception'' =
      Some (Inl (LicenseError ''Classpath-exception'' ErrInvalidException))"
    by code_simp
  have f: "ParseStrict exampleVocab ''MIT WITH Classpath-exception'' =
      Some (Inl (Errorf ErrInvalidException ''Classpath-exception''))"
    by code_simp
  from a b c d e f show ?thesis by blast
qed

section \<open>Greedy splitting of a phrase\<close>

text \<open>
  What one span of words gives: the result of \<open>Normalize\<close> on the words joined by a space
  and, when that fails on a text ending in \<open>+\<close>, the result on the text without it
  (the body of the inner loop of \<open>normalizeLicenseWords\<close>).
\<close>

definition matchSpan :: "vocab \<Rightarrow> string list \<Rightarrow> string option" where
  "matchSpan V ws =
     (let candidate = Join ws '' '' in
      case Normalize V candidate of
        Inr normalized \<Rightarrow> Some normalized
      | Inl err \<Rightarrow>
         (if HasSuffix candidate ''+'' then
            (case Normalize V (TrimSuffix candidate ''+'') of
               Inr normalized \<Rightarrow> Some (upgradeGPL (normalized @ ''+''))
             | Inl err \<Rightarrow> None)
          else None))"

text \<open>
  The splitting as the specification words it: the longest span at the start of the words
  that normalizes gives the first term, and the words after it are split in the same way.
\<close>

inductive greedySplit :: "vocab \<Rightarrow> string list \<Rightarrow> string list \<Rightarrow> bool" where
  split_done: "greedySplit V [] []"
| split_span: "0 < n \<Longrightarrow> n \<le> length words \<Longrightarrow> matchSpan V (take n words) = Some t \<Longrightarrow>
         (\<forall>m. n < m \<and> m \<le> length words \<longrightarrow> matchSpan V (take m words) = None) \<Longrightarrow>
         greedySplit V (drop n words) terms \<Longrightarrow>
         greedySplit V words (t # terms)"

lemma trySpans_Some:
  "trySpans V words i e0 = Some (r, e) \<Longrightarrow>
     i < e \<and> e \<le> e0 \<and> matchSpan V (take (e - i) (drop i words)) = Some r
     \<and> (\<forall>e'. e < e' \<and> e' \<le> e0 \<longrightarrow> matchSpan V (take (e' - i) (drop i words)) = None)"
proof (induction V words i e0 rule: trySpans.induct)
  case (1 V words i e0)
  show ?case
  proof (cases "e0 > i")
    case False
    with "1.prems" show ?thesis by (simp add: trySpans.simps [of V words i e0])
  next
    case True
    let ?c = "Join (take (e0 - i) (drop i words)) '' ''"
    show ?thesis
    proof (cases "Normalize V ?c")
      case (Inr n)
      with True "1.prems" have re: "r = n" "e = e0"
        by (simp_all add: trySpans.simps [of V words i e0])
      have m: "matchSpan V (take (e0 - i) (drop i words)) = Some n"
        using Inr by (simp add: matchSpan_def)
      from True re m show ?thesis by auto
    next
      case (Inl err)
      let ?b = "if HasSuffix ?c ''+'' then Normalize V (TrimSuffix ?c ''+'') else Inl err"
      show ?thesis
      proof (cases ?b)
        case (Inr n)
        with True Inl "1.prems" have re: "r = upgradeGPL (n @ ''+'')" "e = e0"
          by (simp_all add: trySpans.simps [of V words i e0] Let_def)
        from Inr have hs: "HasSuffix ?c ''+''" "Normalize V (TrimSuffix ?c ''+'') = Inr n"
          by (auto split: if_splits)
        have m: "matchSpan V (take (e0 - i) (drop i words)) = Some (upgradeGPL (n @ ''+''))"
          using Inl hs by (simp add: matchSpan_def)
        from True re m show ?thesis by auto
      next
        case Inl2: (Inl err2)
        with True Inl "1.prems" have rec: "trySpans V words i (e0 - 1) = Some (r, e)"
          by (simp add: trySpans.simps [of V words i e0] Let_def)
        have here: "matchSpan V (take (e0 - i) (drop i words)) = None"
          using Inl Inl2 by (cases "HasSuffix ?c ''+''") (simp_all add: matchSpan_def)
        from "1.IH" [OF True refl Inl refl Inl2 rec]
        have ih: "i < e \<and> e \<le> e0 - 1 \<and> matchSpan V (take (e - i) (drop i words)) = Some r
          \<and> (\<forall>e'. e < e' \<and> e' \<le> e0 - 1 \<longrightarrow> matchSpan V (take (e' - i) (drop i words)) = None)" .
        have "matchSpan V (take (e' - i) (drop i words)) = None" if "e < e'" "e' \<le> e0" for e'
        proof (cases "e' = e0")
          case True
          with here show ?thesis by simp
        next
          case False
          with that have "e' \<le> e0 - 1" by arith
          with ih that show ?thesis by blast
        qed
        moreover from ih have "i < e" "e \<le> e0" by arith+
        ultimately show ?thesis using ih by blast
      qed
    qed
  qed
qed

lemma trySpans_None:
  "trySpans V words i e0 = None \<Longrightarrow> i < e' \<Longrightarrow> e' \<le> e0 \<Longrightarrow>
     matchSpan V (take (e' - i) (drop i words)) = None"
proof (induction V words i e0 rule: trySpans.induct)
  case (1 V words i e0)
  from "1.prems" have gt: "e0 > i" by arith
  let ?c = "Join (take (e0 - i) (drop i words)) '' ''"
  from gt "1.prems"(1) obtain err where Inl: "Normalize V ?c = Inl err"
    by (cases "Normalize V ?c") (simp_all add: trySpans.simps [of V words i e0])
  let ?b = "if HasSuffix ?c ''+'' then Normalize V (TrimSuffix ?c ''+'') else Inl err"
  from gt Inl "1.prems"(1) obtain err2 where Inl2: "?b = Inl err2"
    by (cases ?b) (simp_all add: trySpans.simps [of V words i e0] Let_def)
  from gt Inl Inl2 "1.prems"(1) have rec: "trySpans V words i (e0 - 1) = None"
    by (simp add: trySpans.simps [of V words i e0] Let_def)
  have here: "matchSpan V (take (e0 - i) (drop i words)) = None"
    using Inl Inl2 by (cases "HasSuffix ?c ''+''") (simp_all add: matchSpan_def)
  show ?case
  proof (cases "e' = e0")
    case True
    with here show ?thesis by simp
  next
    case False
    with "1.prems" have "e' \<le> e0 - 1" by arith
    from "1.IH" [OF gt refl Inl refl Inl2 rec \<open>i < e'\<close> this] show ?thesis .
  qed
qed

lemma loop_splits:
  "normalizeLicenseWords_loop V words i results = Inr out \<Longrightarrow> i \<le> length words \<Longrightarrow>
     \<exists>terms. greedySplit V (drop i words) terms \<and> out = Join (results @ terms) '' ''"
proof (induction V words i results rule: normalizeLicenseWords_loop.induct)
  case (1 V words i results)
  show ?case
  proof (cases "i < length words")
    case False
    with "1.prems" have "out = Join results '' ''" "drop i words = []"
      by (simp_all add: normalizeLicenseWords_loop.simps [of V words i results])
    then show ?thesis using greedySplit.split_done [of V] by auto
  next
    case True
    show ?thesis
    proof (cases "trySpans V words i (length words)")
      case None
      with True "1.prems" show ?thesis
        by (simp add: normalizeLicenseWords_loop.simps [of V words i results])
    next
      case (Some a)
      obtain r e where a: "a = (r, e)" by (cases a)
      from trySpans_Some [OF Some [unfolded a]]
      have b: "i < e" "e \<le> length words"
        "matchSpan V (take (e - i) (drop i words)) = Some r"
        "\<forall>e'. e < e' \<and> e' \<le> length words \<longrightarrow> matchSpan V (take (e' - i) (drop i words)) = None"
        by blast+
      from True Some a "1.prems"
      have rec: "normalizeLicenseWords_loop V words e (results @ [r]) = Inr out"
        by (simp add: normalizeLicenseWords_loop.simps [of V words i results])
      from "1.IH" [OF True Some a [symmetric] rec b(2)]
      obtain terms where t: "greedySplit V (drop e words) terms"
        "out = Join ((results @ [r]) @ terms) '' ''" by blast
      let ?ws = "drop i words"
      have d: "drop (e - i) ?ws = drop e words" using b(1) by simp
      have longest: "\<forall>m. e - i < m \<and> m \<le> length ?ws \<longrightarrow> matchSpan V (take m ?ws) = None"
      proof (intro allI impI)
        fix m assume m: "e - i < m \<and> m \<le> length ?ws"
        then have "e < m + i \<and> m + i \<le> length words" by auto
        with b(4) have "matchSpan V (take (m + i - i) ?ws) = None" by blast
        then show "matchSpan V (take m ?ws) = None" by simp
      qed
      have "greedySplit V ?ws (r # terms)"
      proof (rule greedySplit.split_span [where n = "e - i"])
        show "0 < e - i" using b(1) by simp
        show "e - i \<le> length ?ws" using b(2) by simp
        show "matchSpan V (take (e - i) ?ws) = Some r" by (rule b(3))
        show "\<forall>m. e - i < m \<and> m \<le> length ?ws \<longrightarrow> matchSpan V (take m ?ws) = None"
          by (rule longest)
        show "greedySplit V (drop (e - i) ?ws) terms" using t(1) d by simp
      qed
      with t(2) show ?thesis by auto
    qed
  qed
qed

lemma loop_fails:
  "normalizeLicenseWords_loop V words i results = Inl err \<Longrightarrow>
     \<exists>j. i \<le> j \<and> j < length words \<and> err = LicenseError (words ! j) ErrInvalidLicenseID
        \<and> (\<forall>e. j < e \<and> e \<le> length words \<longrightarrow> matchSpan V (take (e - j) (drop j words)) = None)"
proof (induction V words i results rule: normalizeLicenseWords_loop.induct)
  case (1 V words i results)
  from "1.prems" have lt: "i < length words"
    by (cases "i < length words") (simp_all add: normalizeLicenseWords_loop.simps [of V words i results])
  show ?case
  proof (cases "trySpans V words i (length words)")
    case None
    with lt "1.prems" have "err = LicenseError (words ! i) ErrInvalidLicenseID"
      by (simp add: normalizeLicenseWords_loop.simps [of V words i results])
    moreover have "\<forall>e. i < e \<and> e \<le> length words \<longrightarrow>
        matchSpan V (take (e - i) (drop i words)) = None"
      using trySpans_None [OF None] by blast
    ultimately show ?thesis using lt by blast
  next
    case (Some a)
    obtain r e where a: "a = (r, e)" by (cases a)
    from trySpans_Some [OF Some [unfolded a]] have b: "i < e" by blast
    from lt Some a "1.prems"
    have rec: "normalizeLicenseWords_loop V words e (results @ [r]) = Inl err"
      by (simp add: normalizeLicenseWords_loop.simps [of V words i results])
    from "1.IH" [OF lt Some a [symmetric] rec]
    obtain j where "e \<le> j" "j < length words"
      "err = LicenseError (words ! j) ErrInvalidLicenseID"
      "\<forall>e. j < e \<and> e \<le> length words \<longrightarrow> matchSpan V (take (e - j) (drop j words)) = None"
      by blast
    with b show ?thesis by (intro exI [of _ j]) auto
  qed
qed

text \<open>
  The transform tier on a text without a trailing \<open>+\<close>: the first of the transformed
  texts that differs from the text and is a license decides.
\<close>

fun firstHit :: "vocab \<Rightarrow> string \<Rightarrow> string list \<Rightarrow> string" where
  "firstHit V s [] = []"
| "firstHit V s (c # cs) =
     (if c \<noteq> s \<and> lookupLicense V c \<noteq> [] then upgradeGPL (lookupLicense V c)
      else firstHit V s cs)"

lemma tryTransforms_loop_firstHit:
  "tryTransforms_loop V ts s False base = firstHit V s (map (\<lambda>t. TrimSpace (t s)) ts)"
  by (induction ts) (simp_all add: Let_def)

lemma tryTransforms_firstHit:
  "\<not> HasSuffix s ''+'' \<Longrightarrow>
     tryTransforms V s = firstHit V s (map (\<lambda>t. TrimSpace (t s)) transforms)"
  by (simp add: tryTransforms_def tryTransforms_loop_firstHit)

lemma transforms_new_bsd:
  "map (\<lambda>t. TrimSpace (t ''New BSD License'')) transforms =
     [''NEW BSD LICENSE'', ''New BSD License'', ''New BSD License'', ''NewBSDLicense'',
      ''New-BSD-License'', ''New BSD License'', ''New BSD License'', ''New BSD License'',
      ''New BSD License'', ''New BSD License'', ''New BSD License'', ''New BSD License'',
      ''New BSD License-only'', ''New BSD License'', ''New BSD License'', ''New BSD License'',
      ''New BSD License'', ''BSD-3-Clause'', ''New BSD License'', ''New BSD License'',
      ''New BSD License'', ''New BSD License'', ''New BSD License'', ''New BSD License'']"
  by code_simp

lemma Normalize_new_bsd:
  assumes "lookupLicense V ''New BSD License'' = []"
    and "lookupLicense V ''NEW BSD LICENSE'' = []"
    and "lookupLicense V ''NewBSDLicense'' = []"
    and "lookupLicense V ''New-BSD-License'' = []"
    and "lookupLicense V ''New BSD License-only'' = []"
    and "lookupLicense V ''BSD-3-Clause'' = ''BSD-3-Clause''"
  shows "Normalize V ''New BSD License'' = Inr ''BSD-3-Clause''"
proof -
  have np: "\<not> HasSuffix ''New BSD License'' ''+''" by (simp add: golib_defs)
  have tt: "tryTransforms V ''New BSD License'' = ''BSD-3-Clause''"
    unfolding tryTransforms_firstHit [OF np] transforms_new_bsd
    using assms by (simp add: upgradeGPL_def)
  have ts: "TrimSpace ''New BSD License'' = ''New BSD License''" by (simp add: golib_defs)
  have tp: "TrimSuffix ''New BSD License'' ''+'' = ''New BSD License''" by (simp add: golib_defs)
  show ?thesis
    by (simp add: Normalize_def ts tp tt assms(1))
qed

lemma words_new_bsd:
  assumes "Normalize V ''New BSD License'' = Inr ''BSD-3-Clause''"
  shows "normalizeLicenseWords V [''New'', ''BSD'', ''License''] = Inr ''BSD-3-Clause''"
proof -
  have sp: "trySpans V [''New'', ''BSD'', ''License''] 0 (Suc (Suc (Suc 0))) =
      Some (''BSD-3-Clause'', Suc (Suc (Suc 0)))"
    using assms by (simp add: trySpans.simps [of V _ 0 "Suc (Suc (Suc 0))"])
  show ?thesis
    using sp
    by (simp add: normalizeLicenseWords_def
        normalizeLicenseWords_loop.simps [of V "[''New'', ''BSD'', ''License'']" 0]
        normalizeLicenseWords_loop.simps [of V "[''New'', ''BSD'', ''License'']" "Suc (Suc (Suc 0))"])
qed

lemma parse_new_bsd:
  assumes "Normalize V ''New BSD License'' = Inr ''BSD-3-Clause''"
    and "lookupLicense V ''BSD-3-Clause'' = ''BSD-3-Clause''"
  shows "Parse V ''New BSD License'' = Some (Inr (License ''BSD-3-Clause'' False []))"
proof -
  have t: "tokenizeForNormalization ''New BSD License'' =
    [\<lparr>nvalue = ''New'', isOp = False, isParen = False, isPlus = False\<rparr>,
     \<lparr>nvalue = ''BSD'', isOp = False, isParen = False, isPlus = False\<rparr>,
     \<lparr>nvalue = ''License'', isOp = False, isParen = False, isPlus = False\<rparr>]"
    by code_simp
  have n: "normalizeExpressionString V ''New BSD License'' = Inr ''BSD-3-Clause''"
    unfolding normalizeExpressionString_def t
    using words_new_bsd [OF assms(1)] by (simp add: normalizeTokens_defs golib_defs)
  have r: "parse_run V ''BSD-3-Clause'' = Some (Inr (License ''BSD-3-Clause'' False []))"
    using assms(2) by (simp add: parse_defs)
  have ts: "TrimSpace ''New BSD License'' = ''New BSD License''" by (simp add: golib_defs)
  show ?thesis
    by (simp add: Parse_def ts n r)
qed

text \<open>
  Claim C7. A phrase of two words or more, or of one word that is neither a special value
  nor a license reference, is split greedily: when \<open>normalizeLicenseWords\<close> succeeds, its
  result is the terms of the greedy splitting joined by a space, each term being the
  longest span at its place that normalizes; when it fails, the error names one word at
  which every span, down to the word alone, fails. \<open>New BSD License\<close> is the one term
  \<open>BSD-3-Clause\<close>, in every vocabulary that has this license and none of the five texts
  that the tiers try before the pattern for \<open>New BSD\<close>.
\<close>

theorem greedy_longest_span_first:
  assumes "lookupLicense V ''New BSD License'' = []"
    and "lookupLicense V ''NEW BSD LICENSE'' = []"
    and "lookupLicense V ''NewBSDLicense'' = []"
    and "lookupLicense V ''New-BSD-License'' = []"
    and "lookupLicense V ''New BSD License-only'' = []"
    and "lookupLicense V ''BSD-3-Clause'' = ''BSD-3-Clause''"
    and "2 \<le> length words
         \<or> (length words = 1 \<and> ToUpper (hd words) \<noteq> ''NONE'' \<and> ToUpper (hd words) \<noteq> ''NOASSERTION''
             \<and> \<not> HasPrefix (ToUpper (hd words)) ''LICENSEREF-''
             \<and> \<not> HasPrefix (ToUpper (hd words)) ''DOCUMENTREF-'')"
  shows "(\<forall>out. normalizeLicenseWords V words = Inr out \<longrightarrow>
            (\<exists>terms. greedySplit V words terms \<and> out = Join terms '' ''))
    \<and> (\<forall>err. normalizeLicenseWords V words = Inl err \<longrightarrow>
            (\<exists>j<length words. err = LicenseError (words ! j) ErrInvalidLicenseID
               \<and> (\<forall>e. j < e \<and> e \<le> length words \<longrightarrow>
                      matchSpan V (take (e - j) (drop j words)) = None)))
    \<and> normalizeLicenseWords V [''New'', ''BSD'', ''License''] = Inr ''BSD-3-Clause''
    \<and> greedySplit V [''New'', ''BSD'', ''License''] [''BSD-3-Clause'']
    \<and> Parse V ''New BSD License'' = Some (Inr (License ''BSD-3-Clause'' False []))"
proof -
  have loop: "normalizeLicenseWords V words = normalizeLicenseWords_loop V words 0 []"
    using assms(7) by (auto simp: normalizeLicenseWords_def Let_def)
  have ok: "\<exists>terms. greedySplit V words terms \<and> out = Join terms '' ''"
    if "normalizeLicenseWords V words = Inr out" for out
    using loop_splits [of V words 0 "[]" out] that loop by simp
  have bad: "\<exists>j<length words. err = LicenseError (words ! j) ErrInvalidLicenseID
               \<and> (\<forall>e. j < e \<and> e \<le> length words \<longrightarrow>
                      matchSpan V (take (e - j) (drop j words)) = None)"
    if "normalizeLicenseWords V words = Inl err" for err
    using loop_fails [of V words 0 "[]" err] that loop by auto
  note n = Normalize_new_bsd [OF assms(1-6)]
  have m: "matchSpan V [''New'', ''BSD'', ''License''] = Some ''BSD-3-Clause''"
    using n by (simp add: matchSpan_def)
  have g: "greedySplit V [''New'', ''BSD'', ''License''] [''BSD-3-Clause'']"
    by (rule greedySplit.split_span [where n = 3]) (simp_all add: m greedySplit.split_done)
  from ok bad g show ?thesis
    by (simp add: words_new_bsd [OF n] parse_new_bsd [OF n assms(6)])
qed

theorem greedy_longest_span_first_witness:
  "normalizeLicenseWords exampleVocab [''New'', ''BSD'', ''License''] = Inr ''BSD-3-Clause''
   \<and> (\<exists>terms. greedySplit exampleVocab [''New'', ''BSD'', ''License''] terms
         \<and> ''BSD-3-Clause'' = Join terms '' '')
   \<and> Parse exampleVocab ''New BSD License'' = Some (Inr (License ''BSD-3-Clause'' False []))"
proof -
  have h1: "lookupLicense exampleVocab ''New BSD License'' = []" by code_simp
  have h2: "lookupLicense exampleVocab ''NEW BSD LICENSE'' = []" by code_simp
  have h3: "lookupLicense exampleVocab ''NewBSDLicense'' = []" by code_simp
  have h4: "lookupLicense exampleVocab ''New-BSD-License'' = []" by code_simp
  have h5: "lookupLicense exampleVocab ''New BSD License-only'' = []" by code_simp
  have h6: "lookupLicense exampleVocab ''BSD-3-Clause'' = ''BSD-3-Clause''" by code_simp
  have h7: "2 \<le> length [''New'', ''BSD'', ''License'']
         \<or> (length [''New'', ''BSD'', ''License''] = 1
             \<and> ToUpper (hd [''New'', ''BSD'', ''License'']) \<noteq> ''NONE''
             \<and> ToUpper (hd [''New'', ''BSD'', ''License'']) \<noteq> ''NOASSERTION''
             \<and> \<not> HasPrefix (ToUpper (hd [''New'', ''BSD'', ''License''])) ''LICENSEREF-''
             \<and> \<not> HasPrefix (ToUpper (hd [''New'', ''BSD'', ''License''])) ''DOCUMENTREF-'')"
    by simp
  from greedy_longest_span_first [OF h1 h2 h3 h4 h5 h6 h7]
  show ?thesis by blast
qed

section \<open>Strict parsing\<close>

text \<open>
  The words of a text are its maximal runs of bytes other than white space, parentheses
  and \<open>+\<close>. A license word is a word that is not an operator, a license or document
  reference, or a special value.
\<close>

function splitWords :: "string \<Rightarrow> string list" where
  "splitWords s =
     (case dropWhile (\<lambda>c. \<not> wordByte c) s of
        [] \<Rightarrow> []
      | c # l \<Rightarrow> takeWhile wordByte (c # l) # splitWords (dropWhile wordByte (c # l)))"
  by pat_completeness auto
termination
proof (relation "measure length")
  show "wf (measure length)" by simp
next
  fix s :: string and c :: char and l :: string
  assume a: "dropWhile (\<lambda>c. \<not> wordByte c) s = c # l"
  have "wordByte c" using hd_dropWhile [of "\<lambda>c. \<not> wordByte c" s] a by simp
  then have "length (dropWhile wordByte (c # l)) \<le> length l"
    by (simp add: length_dropWhile_le)
  moreover have "length (c # l) \<le> length s"
    using length_dropWhile_le [of "\<lambda>c. \<not> wordByte c" s] a by simp
  ultimately show "(dropWhile wordByte (c # l), s) \<in> measure length" by simp
qed

declare splitWords.simps [simp del]

definition isLicenseWord :: "string \<Rightarrow> bool" where
  "isLicenseWord w \<longleftrightarrow>
     (let upper = ToUpper w in
      upper \<noteq> ''AND'' \<and> upper \<noteq> ''OR'' \<and> upper \<noteq> ''WITH''
      \<and> \<not> HasPrefix upper ''DOCUMENTREF-'' \<and> \<not> HasPrefix upper ''LICENSEREF-''
      \<and> upper \<noteq> ''NONE'' \<and> upper \<noteq> ''NOASSERTION'')"


text \<open>A word is known when the exact lookup finds it as a license or as an exception.\<close>

definition known :: "vocab \<Rightarrow> string \<Rightarrow> bool" where
  "known V w \<longleftrightarrow> lookupLicense V w \<noteq> [] \<or> lookupException V w \<noteq> []"








lemma splitWords_Nil [simp]: "splitWords [] = []"
  by (simp add: splitWords.simps [of "[]"])








text \<open>
  The parser state \<open>r\<close> is reached from \<open>p\<close> by calls of \<open>advance\<close>, none of them at
  the end of the input and each one over a token that is a known word or no license word.
\<close>

inductive reaches :: "vocab \<Rightarrow> parser \<Rightarrow> parser \<Rightarrow> bool" where
  reaches_refl: "reaches V p p"
| reaches_step: "advance p = Inr q \<Longrightarrow> ttyp (current p) \<noteq> tokenEOF \<Longrightarrow>
     (ttyp (current p) = tokenLicense \<and> isLicenseWord (tvalue (current p))
        \<longrightarrow> known V (tvalue (current p))) \<Longrightarrow>
     reaches V q r \<Longrightarrow> reaches V p r"

lemma reaches_trans: "reaches V p q \<Longrightarrow> reaches V q r \<Longrightarrow> reaches V p r"
  by (induction rule: reaches.induct) (auto intro: reaches.intros)

lemma reaches_other:
  "advance p = Inr p' \<Longrightarrow> ttyp (current p) \<noteq> tokenEOF \<Longrightarrow>
   \<not> (ttyp (current p) = tokenLicense \<and> isLicenseWord (tvalue (current p))) \<Longrightarrow>
   reaches V p p'"
  by (rule reaches_step [OF _ _ _ reaches_refl]) auto

lemma reaches_known:
  "advance p = Inr p' \<Longrightarrow> ttyp (current p) = tokenLicense \<Longrightarrow>
   known V (tvalue (current p)) \<Longrightarrow> reaches V p p'"
  by (rule reaches_step [OF _ _ _ reaches_refl]) auto


lemma special_not_license_word:
  "ToUpper w = ''NONE'' \<or> ToUpper w = ''NOASSERTION'' \<Longrightarrow> \<not> isLicenseWord w"
  by (auto simp: isLicenseWord_def Let_def)

lemma parseAtom_reaches:
  assumes IH: "\<And>q e q'. parseExpression V n q = Some (Inr (e, q')) \<Longrightarrow> reaches V q q'"
    and res: "parseAtom V (Suc n) p = Some (Inr (e, p'))"
  shows "reaches V p p'"
proof (cases "ttyp (current p)")
  case tokenOpenParen
  with res obtain p1 p2 where a1: "advance p = Inr p1"
    and pe: "parseExpression V n p1 = Some (Inr (e, p2))"
    and cl: "ttyp (current p2) = tokenCloseParen" and a2: "advance p2 = Inr p'"
    by (auto split: sum.splits option.splits if_splits)
  have "reaches V p p1" using a1 tokenOpenParen by (intro reaches_other) simp_all
  moreover have "reaches V p1 p2" using IH [OF pe] .
  moreover have "reaches V p2 p'" using a2 cl by (intro reaches_other) simp_all
  ultimately show ?thesis by (blast intro: reaches_trans)
next
  case tokenLicense
  let ?v = "tvalue (current p)"
  show ?thesis
  proof (cases "ToUpper ?v = ''NONE'' \<or> ToUpper ?v = ''NOASSERTION''")
    case True
    with res tokenLicense have a: "advance p = Inr p'"
      by (auto simp: Let_def split: sum.splits)
    from special_not_license_word [OF True] a tokenLicense show ?thesis
      by (intro reaches_other) simp_all
  next
    case False
    with res tokenLicense have k: "lookupLicense V ?v \<noteq> []"
      by (auto simp: Let_def split: if_splits)
    with res tokenLicense False obtain p1 where a1: "advance p = Inr p1"
      and rest: "(ttyp (current p1) = tokenPlus \<and> advance p1 = Inr p')
                 \<or> (ttyp (current p1) \<noteq> tokenPlus \<and> p' = p1)"
      by (auto simp: Let_def split: sum.splits if_splits)
    have c1: "reaches V p p1" using a1 tokenLicense k by (intro reaches_known) (simp_all add: known_def)
    from rest show ?thesis
    proof
      assume "ttyp (current p1) = tokenPlus \<and> advance p1 = Inr p'"
      then have "reaches V p1 p'" by (intro reaches_other) simp_all
      with c1 show ?thesis by (blast intro: reaches_trans)
    next
      assume "ttyp (current p1) \<noteq> tokenPlus \<and> p' = p1"
      with c1 show ?thesis by simp
    qed
  qed
next
  case tokenLicenseRef
  with res have "advance p = Inr p'" by (auto simp: Let_def split: sum.splits)
  with tokenLicenseRef show ?thesis by (intro reaches_other) simp_all
next
  case tokenDocumentRef
  with res have "advance p = Inr p'" by (auto simp: Let_def split: sum.splits)
  with tokenDocumentRef show ?thesis by (intro reaches_other) simp_all
qed (use res in simp_all)

lemma parseWith_reaches:
  assumes IH: "\<And>q e q'. parseAtom V n q = Some (Inr (e, q')) \<Longrightarrow> reaches V q q'"
    and res: "parseWith V (Suc n) p = Some (Inr (e, p'))"
  shows "reaches V p p'"
proof -
  from res obtain left p1 where pa: "parseAtom V n p = Some (Inr (left, p1))"
    by (auto split: option.splits sum.splits)
  have c1: "reaches V p p1" using IH [OF pa] .
  show ?thesis
  proof (cases "ttyp (current p1) = tokenWith")
    case False
    with res pa have "p' = p1" by simp
    with c1 show ?thesis by simp
  next
    case True
    with res pa obtain p2 where a1: "advance p1 = Inr p2"
      and t2: "ttyp (current p2) = tokenLicense"
      and k: "lookupException V (tvalue (current p2)) \<noteq> []"
      and a2: "advance p2 = Inr p'"
      by (auto simp: Let_def split: Expression.splits sum.splits if_splits)
    have "reaches V p1 p2" using a1 True by (intro reaches_other) simp_all
    moreover have "reaches V p2 p'" using a2 t2 k by (intro reaches_known) (simp_all add: known_def)
    ultimately show ?thesis using c1 by (blast intro: reaches_trans)
  qed
qed

lemma parseAnd_loop_reaches:
  assumes IHw: "\<And>q e q'. parseWith V n q = Some (Inr (e, q')) \<Longrightarrow> reaches V q q'"
    and IHl: "\<And>l q e q'. parseAnd_loop V n l q = Some (Inr (e, q')) \<Longrightarrow> reaches V q q'"
    and res: "parseAnd_loop V (Suc n) left p = Some (Inr (e, p'))"
  shows "reaches V p p'"
proof (cases "ttyp (current p) = tokenAnd")
  case False
  with res show ?thesis by (simp add: reaches_refl)
next
  case True
  with res obtain p1 right p2 where a1: "advance p = Inr p1"
    and pw: "parseWith V n p1 = Some (Inr (right, p2))"
    and lp: "parseAnd_loop V n (AndExpression left right) p2 = Some (Inr (e, p'))"
    by (auto split: sum.splits option.splits)
  have "reaches V p p1" using a1 True by (intro reaches_other) simp_all
  with IHw [OF pw] IHl [OF lp] show ?thesis by (blast intro: reaches_trans)
qed

lemma parseAnd_reaches:
  assumes IHw: "\<And>q e q'. parseWith V n q = Some (Inr (e, q')) \<Longrightarrow> reaches V q q'"
    and IHl: "\<And>l q e q'. parseAnd_loop V n l q = Some (Inr (e, q')) \<Longrightarrow> reaches V q q'"
    and res: "parseAnd V (Suc n) p = Some (Inr (e, p'))"
  shows "reaches V p p'"
proof -
  from res obtain left p1 where pw: "parseWith V n p = Some (Inr (left, p1))"
    and lp: "parseAnd_loop V n left p1 = Some (Inr (e, p'))"
    by (auto split: option.splits sum.splits)
  from IHw [OF pw] IHl [OF lp] show ?thesis by (blast intro: reaches_trans)
qed

lemma parseExpression_loop_reaches:
  assumes IHa: "\<And>q e q'. parseAnd V n q = Some (Inr (e, q')) \<Longrightarrow> reaches V q q'"
    and IHl: "\<And>l q e q'. parseExpression_loop V n l q = Some (Inr (e, q')) \<Longrightarrow> reaches V q q'"
    and res: "parseExpression_loop V (Suc n) left p = Some (Inr (e, p'))"
  shows "reaches V p p'"
proof (cases "ttyp (current p) = tokenOr")
  case False
  with res show ?thesis by (simp add: reaches_refl)
next
  case True
  with res obtain p1 right p2 where a1: "advance p = Inr p1"
    and pa: "parseAnd V n p1 = Some (Inr (right, p2))"
    and lp: "parseExpression_loop V n (OrExpression left right) p2 = Some (Inr (e, p'))"
    by (auto split: sum.splits option.splits)
  have "reaches V p p1" using a1 True by (intro reaches_other) simp_all
  with IHa [OF pa] IHl [OF lp] show ?thesis by (blast intro: reaches_trans)
qed

lemma parseExpression_reaches_step:
  assumes IHa: "\<And>q e q'. parseAnd V n q = Some (Inr (e, q')) \<Longrightarrow> reaches V q q'"
    and IHl: "\<And>l q e q'. parseExpression_loop V n l q = Some (Inr (e, q')) \<Longrightarrow> reaches V q q'"
    and res: "parseExpression V (Suc n) p = Some (Inr (e, p'))"
  shows "reaches V p p'"
proof -
  from res obtain left p1 where pa: "parseAnd V n p = Some (Inr (left, p1))"
    and lp: "parseExpression_loop V n left p1 = Some (Inr (e, p'))"
    by (auto split: option.splits sum.splits)
  from IHa [OF pa] IHl [OF lp] show ?thesis by (blast intro: reaches_trans)
qed

lemma parser_reaches:
  "(\<forall>p e p'. parseExpression V n p = Some (Inr (e, p')) \<longrightarrow> reaches V p p')
   \<and> (\<forall>l p e p'. parseExpression_loop V n l p = Some (Inr (e, p')) \<longrightarrow> reaches V p p')
   \<and> (\<forall>p e p'. parseAnd V n p = Some (Inr (e, p')) \<longrightarrow> reaches V p p')
   \<and> (\<forall>l p e p'. parseAnd_loop V n l p = Some (Inr (e, p')) \<longrightarrow> reaches V p p')
   \<and> (\<forall>p e p'. parseWith V n p = Some (Inr (e, p')) \<longrightarrow> reaches V p p')
   \<and> (\<forall>p e p'. parseAtom V n p = Some (Inr (e, p')) \<longrightarrow> reaches V p p')"
proof (induction n)
  case 0
  show ?case by simp
next
  case (Suc n)
  then have e: "\<And>q e q'. parseExpression V n q = Some (Inr (e, q')) \<Longrightarrow> reaches V q q'"
    and el: "\<And>l q e q'. parseExpression_loop V n l q = Some (Inr (e, q')) \<Longrightarrow> reaches V q q'"
    and a: "\<And>q e q'. parseAnd V n q = Some (Inr (e, q')) \<Longrightarrow> reaches V q q'"
    and al: "\<And>l q e q'. parseAnd_loop V n l q = Some (Inr (e, q')) \<Longrightarrow> reaches V q q'"
    and w: "\<And>q e q'. parseWith V n q = Some (Inr (e, q')) \<Longrightarrow> reaches V q q'"
    and at: "\<And>q e q'. parseAtom V n q = Some (Inr (e, q')) \<Longrightarrow> reaches V q q'"
    by blast+
  show ?case
  proof (intro conjI allI impI)
    fix p e' p' assume "parseExpression V (Suc n) p = Some (Inr (e', p'))"
    then show "reaches V p p'"
      by (rule parseExpression_reaches_step [rotated 2]) (rule a, assumption, rule el, assumption)
  next
    fix l p e' p' assume "parseExpression_loop V (Suc n) l p = Some (Inr (e', p'))"
    then show "reaches V p p'"
      by (rule parseExpression_loop_reaches [rotated 2]) (rule a, assumption, rule el, assumption)
  next
    fix p e' p' assume "parseAnd V (Suc n) p = Some (Inr (e', p'))"
    then show "reaches V p p'"
      by (rule parseAnd_reaches [rotated 2]) (rule w, assumption, rule al, assumption)
  next
    fix l p e' p' assume "parseAnd_loop V (Suc n) l p = Some (Inr (e', p'))"
    then show "reaches V p p'"
      by (rule parseAnd_loop_reaches [rotated 2]) (rule w, assumption, rule al, assumption)
  next
    fix p e' p' assume "parseWith V (Suc n) p = Some (Inr (e', p'))"
    then show "reaches V p p'"
      by (rule parseWith_reaches [rotated 1]) (rule at, assumption)
  next
    fix p e' p' assume "parseAtom V (Suc n) p = Some (Inr (e', p'))"
    then show "reaches V p p'"
      by (rule parseAtom_reaches [rotated 1]) (rule e, assumption)
  qed
qed










section \<open>The parser returns\<close>

text \<open>
  The size of a parser state: the bytes not yet read, and one more while the current
  token is not the end of the input. \<open>advance\<close> makes it smaller.
\<close>

definition msize :: "parser \<Rightarrow> nat" where
  "msize p = length (lexer p) + (if ttyp (current p) = tokenEOF then 0 else 1)"

lemma lexer_next_shorter:
  "\<exists>tok l'. lexer_next l = Inr (tok, l')
     \<and> ((ttyp tok = tokenEOF \<and> l' = []) \<or> (ttyp tok \<noteq> tokenEOF \<and> length l' < length l))"
proof (cases "skipWhitespace l")
  case Nil
  then show ?thesis by (simp add: lexer_next_def)
next
  case (Cons ch rest)
  have le: "length (skipWhitespace l) \<le> length l"
    by (simp add: skipWhitespace_def length_dropWhile_le)
  show ?thesis
  proof (cases "ch = CHR ''('' \<or> ch = CHR '')'' \<or> ch = CHR ''+''")
    case True
    with Cons le show ?thesis by (auto simp: lexer_next_def)
  next
    case False
    have "\<not> isSpace ch"
      using Cons hd_dropWhile [of isSpace l] by (simp add: skipWhitespace_def)
    with False have wb: "wordByte ch" by (simp add: wordByte_def)
    then have ne: "takeWhile wordByte (ch # rest) \<noteq> []" by simp
    have "length (dropWhile wordByte (ch # rest)) \<le> length rest"
      using wb by (simp add: length_dropWhile_le)
    with le Cons have "length (dropWhile wordByte (ch # rest)) < length l" by simp
    with False Cons ne show ?thesis
      by (simp add: lexer_next_def Let_def del: takeWhile.simps dropWhile.simps)
  qed
qed

lemma advance_returns:
  "\<exists>p'. advance p = Inr p' \<and> (ttyp (current p) \<noteq> tokenEOF \<longrightarrow> msize p' < msize p)"
proof -
  from lexer_next_shorter [of "lexer p"] obtain tok l'
    where n: "lexer_next (lexer p) = Inr (tok, l')"
      and s: "(ttyp tok = tokenEOF \<and> l' = []) \<or> (ttyp tok \<noteq> tokenEOF \<and> length l' < length (lexer p))"
    by blast
  from n have "advance p = Inr (p\<lparr>lexer := l', current := tok\<rparr>)" by (simp add: advance_def)
  moreover from s have "ttyp (current p) \<noteq> tokenEOF \<longrightarrow>
      msize (p\<lparr>lexer := l', current := tok\<rparr>) < msize p"
    by (auto simp: msize_def)
  ultimately show ?thesis by blast
qed

lemma newParser_returns: "\<exists>p. newParser inp = Inr p \<and> msize p \<le> length inp"
proof -
  from lexer_next_shorter [of inp] obtain tok l'
    where n: "lexer_next inp = Inr (tok, l')"
      and s: "(ttyp tok = tokenEOF \<and> l' = []) \<or> (ttyp tok \<noteq> tokenEOF \<and> length l' < length inp)"
    by blast
  from n have "newParser inp = Inr \<lparr>lexer = l', current = tok\<rparr>" by (simp add: newParser_def)
  moreover from s have "msize \<lparr>lexer = l', current = tok\<rparr> \<le> length inp"
    by (auto simp: msize_def)
  ultimately show ?thesis by blast
qed

lemma reaches_msize: "reaches V p p' \<Longrightarrow> msize p' \<le> msize p"
proof (induction rule: reaches.induct)
  case (reaches_refl V p)
  show ?case by simp
next
  case (reaches_step p q V r)
  from advance_returns [of p] reaches_step have "msize q < msize p" by auto
  with reaches_step.IH show ?case by simp
qed

lemma results_msize:
  "parseExpression V n p = Some (Inr (e, p')) \<Longrightarrow> msize p' \<le> msize p"
  "parseExpression_loop V n l p = Some (Inr (e, p')) \<Longrightarrow> msize p' \<le> msize p"
  "parseAnd V n p = Some (Inr (e, p')) \<Longrightarrow> msize p' \<le> msize p"
  "parseAnd_loop V n l p = Some (Inr (e, p')) \<Longrightarrow> msize p' \<le> msize p"
  "parseWith V n p = Some (Inr (e, p')) \<Longrightarrow> msize p' \<le> msize p"
  "parseAtom V n p = Some (Inr (e, p')) \<Longrightarrow> msize p' \<le> msize p"
proof -
  note r = parser_reaches [of V n] and m = reaches_msize [of V p p']
  show "parseExpression V n p = Some (Inr (e, p')) \<Longrightarrow> msize p' \<le> msize p"
    using r m by blast
  show "parseExpression_loop V n l p = Some (Inr (e, p')) \<Longrightarrow> msize p' \<le> msize p"
    using r m by blast
  show "parseAnd V n p = Some (Inr (e, p')) \<Longrightarrow> msize p' \<le> msize p"
    using r m by blast
  show "parseAnd_loop V n l p = Some (Inr (e, p')) \<Longrightarrow> msize p' \<le> msize p"
    using r m by blast
  show "parseWith V n p = Some (Inr (e, p')) \<Longrightarrow> msize p' \<le> msize p"
    using r m by blast
  show "parseAtom V n p = Some (Inr (e, p')) \<Longrightarrow> msize p' \<le> msize p"
    using r m by blast
qed

lemma parseAtom_returns:
  assumes IH: "\<And>q. 4 * msize q + 4 \<le> n \<Longrightarrow> parseExpression V n q \<noteq> None"
    and n: "4 * msize p + 1 \<le> Suc n"
  shows "parseAtom V (Suc n) p \<noteq> None"
proof (cases "ttyp (current p) = tokenOpenParen")
  case True
  from advance_returns [of p] True obtain p1 where a: "advance p = Inr p1" "msize p1 < msize p"
    by auto
  with n have "4 * msize p1 + 4 \<le> n" by arith
  from IH [OF this] obtain r where r: "parseExpression V n p1 = Some r" by auto
  show ?thesis
  proof (cases r)
    case (Inl err)
    with True a r show ?thesis by simp
  next
    case (Inr ep)
    obtain e p2 where "ep = (e, p2)" by (cases ep)
    with Inr True a r advance_returns [of p2] show ?thesis by auto
  qed
next
  case False
  with advance_returns [of p] obtain p1 where a: "advance p = Inr p1" by blast
  from advance_returns [of p1] obtain p2 where b: "advance p1 = Inr p2" by blast
  from False a b show ?thesis
    by (cases "ttyp (current p)") (simp_all add: Let_def)
qed

lemma parseWith_returns:
  assumes IH: "\<And>q. 4 * msize q + 1 \<le> n \<Longrightarrow> parseAtom V n q \<noteq> None"
    and n: "4 * msize p + 2 \<le> Suc n"
  shows "parseWith V (Suc n) p \<noteq> None"
proof -
  from n have "4 * msize p + 1 \<le> n" by arith
  from IH [OF this] obtain r where r: "parseAtom V n p = Some r" by auto
  show ?thesis
  proof (cases r)
    case (Inl err)
    with r show ?thesis by simp
  next
    case (Inr ep)
    obtain e p1 where ep: "ep = (e, p1)" by (cases ep)
    from advance_returns [of p1] obtain p2 where a: "advance p1 = Inr p2" by blast
    from advance_returns [of p2] obtain p3 where b: "advance p2 = Inr p3" by blast
    from Inr ep r a b show ?thesis
      by (cases e) (simp_all add: Let_def)
  qed
qed

lemma parseAnd_loop_returns:
  assumes IHw: "\<And>q. 4 * msize q + 2 \<le> n \<Longrightarrow> parseWith V n q \<noteq> None"
    and IHl: "\<And>l q. 4 * msize q + 2 \<le> n \<Longrightarrow> parseAnd_loop V n l q \<noteq> None"
    and n: "4 * msize p + 2 \<le> Suc n"
  shows "parseAnd_loop V (Suc n) left p \<noteq> None"
proof (cases "ttyp (current p) = tokenAnd")
  case False
  then show ?thesis by simp
next
  case True
  from advance_returns [of p] True obtain p1 where a: "advance p = Inr p1" "msize p1 < msize p"
    by auto
  with n have n1: "4 * msize p1 + 2 \<le> n" by arith
  from IHw [OF this] obtain r where r: "parseWith V n p1 = Some r" by auto
  show ?thesis
  proof (cases r)
    case (Inl err)
    with True a r show ?thesis by simp
  next
    case (Inr ep)
    obtain e p2 where ep: "ep = (e, p2)" by (cases ep)
    from results_msize(5) [of V n p1 e p2] r Inr ep have "msize p2 \<le> msize p1" by simp
    with n1 have "4 * msize p2 + 2 \<le> n" by arith
    from IHl [OF this] Inr ep True a r show ?thesis by simp
  qed
qed

lemma parseAnd_returns:
  assumes IHw: "\<And>q. 4 * msize q + 2 \<le> n \<Longrightarrow> parseWith V n q \<noteq> None"
    and IHl: "\<And>l q. 4 * msize q + 2 \<le> n \<Longrightarrow> parseAnd_loop V n l q \<noteq> None"
    and n: "4 * msize p + 3 \<le> Suc n"
  shows "parseAnd V (Suc n) p \<noteq> None"
proof -
  from n have n1: "4 * msize p + 2 \<le> n" by arith
  from IHw [OF this] obtain r where r: "parseWith V n p = Some r" by auto
  show ?thesis
  proof (cases r)
    case (Inl err)
    with r show ?thesis by simp
  next
    case (Inr ep)
    obtain e p1 where ep: "ep = (e, p1)" by (cases ep)
    from results_msize(5) [of V n p e p1] r Inr ep have "msize p1 \<le> msize p" by simp
    with n1 have "4 * msize p1 + 2 \<le> n" by arith
    from IHl [OF this] Inr ep r show ?thesis by simp
  qed
qed

lemma parseExpression_loop_returns:
  assumes IHa: "\<And>q. 4 * msize q + 3 \<le> n \<Longrightarrow> parseAnd V n q \<noteq> None"
    and IHl: "\<And>l q. 4 * msize q + 3 \<le> n \<Longrightarrow> parseExpression_loop V n l q \<noteq> None"
    and n: "4 * msize p + 3 \<le> Suc n"
  shows "parseExpression_loop V (Suc n) left p \<noteq> None"
proof (cases "ttyp (current p) = tokenOr")
  case False
  then show ?thesis by simp
next
  case True
  from advance_returns [of p] True obtain p1 where a: "advance p = Inr p1" "msize p1 < msize p"
    by auto
  with n have n1: "4 * msize p1 + 3 \<le> n" by arith
  from IHa [OF this] obtain r where r: "parseAnd V n p1 = Some r" by auto
  show ?thesis
  proof (cases r)
    case (Inl err)
    with True a r show ?thesis by simp
  next
    case (Inr ep)
    obtain e p2 where ep: "ep = (e, p2)" by (cases ep)
    from results_msize(3) [of V n p1 e p2] r Inr ep have "msize p2 \<le> msize p1" by simp
    with n1 have "4 * msize p2 + 3 \<le> n" by arith
    from IHl [OF this] Inr ep True a r show ?thesis by simp
  qed
qed

lemma parseExpression_returns_step:
  assumes IHa: "\<And>q. 4 * msize q + 3 \<le> n \<Longrightarrow> parseAnd V n q \<noteq> None"
    and IHl: "\<And>l q. 4 * msize q + 3 \<le> n \<Longrightarrow> parseExpression_loop V n l q \<noteq> None"
    and n: "4 * msize p + 4 \<le> Suc n"
  shows "parseExpression V (Suc n) p \<noteq> None"
proof -
  from n have n1: "4 * msize p + 3 \<le> n" by arith
  from IHa [OF this] obtain r where r: "parseAnd V n p = Some r" by auto
  show ?thesis
  proof (cases r)
    case (Inl err)
    with r show ?thesis by simp
  next
    case (Inr ep)
    obtain e p1 where ep: "ep = (e, p1)" by (cases ep)
    from results_msize(3) [of V n p e p1] r Inr ep have "msize p1 \<le> msize p" by simp
    with n1 have "4 * msize p1 + 3 \<le> n" by arith
    from IHl [OF this] Inr ep r show ?thesis by simp
  qed
qed

lemma parser_returns:
  "(\<forall>p. 4 * msize p + 4 \<le> n \<longrightarrow> parseExpression V n p \<noteq> None)
   \<and> (\<forall>l p. 4 * msize p + 3 \<le> n \<longrightarrow> parseExpression_loop V n l p \<noteq> None)
   \<and> (\<forall>p. 4 * msize p + 3 \<le> n \<longrightarrow> parseAnd V n p \<noteq> None)
   \<and> (\<forall>l p. 4 * msize p + 2 \<le> n \<longrightarrow> parseAnd_loop V n l p \<noteq> None)
   \<and> (\<forall>p. 4 * msize p + 2 \<le> n \<longrightarrow> parseWith V n p \<noteq> None)
   \<and> (\<forall>p. 4 * msize p + 1 \<le> n \<longrightarrow> parseAtom V n p \<noteq> None)"
proof (induction n)
  case 0
  show ?case by simp
next
  case (Suc n)
  then have e: "\<And>q. 4 * msize q + 4 \<le> n \<Longrightarrow> parseExpression V n q \<noteq> None"
    and el: "\<And>l q. 4 * msize q + 3 \<le> n \<Longrightarrow> parseExpression_loop V n l q \<noteq> None"
    and a: "\<And>q. 4 * msize q + 3 \<le> n \<Longrightarrow> parseAnd V n q \<noteq> None"
    and al: "\<And>l q. 4 * msize q + 2 \<le> n \<Longrightarrow> parseAnd_loop V n l q \<noteq> None"
    and w: "\<And>q. 4 * msize q + 2 \<le> n \<Longrightarrow> parseWith V n q \<noteq> None"
    and at: "\<And>q. 4 * msize q + 1 \<le> n \<Longrightarrow> parseAtom V n q \<noteq> None"
    by blast+
  show ?case
  proof (intro conjI allI impI)
    fix p assume "4 * msize p + 4 \<le> Suc n"
    then show "parseExpression V (Suc n) p \<noteq> None"
      by (rule parseExpression_returns_step [rotated 2]) (rule a, assumption, rule el, assumption)
  next
    fix l p assume "4 * msize p + 3 \<le> Suc n"
    then show "parseExpression_loop V (Suc n) l p \<noteq> None"
      by (rule parseExpression_loop_returns [rotated 2]) (rule a, assumption, rule el, assumption)
  next
    fix p assume "4 * msize p + 3 \<le> Suc n"
    then show "parseAnd V (Suc n) p \<noteq> None"
      by (rule parseAnd_returns [rotated 2]) (rule w, assumption, rule al, assumption)
  next
    fix l p assume "4 * msize p + 2 \<le> Suc n"
    then show "parseAnd_loop V (Suc n) l p \<noteq> None"
      by (rule parseAnd_loop_returns [rotated 2]) (rule w, assumption, rule al, assumption)
  next
    fix p assume "4 * msize p + 2 \<le> Suc n"
    then show "parseWith V (Suc n) p \<noteq> None"
      by (rule parseWith_returns [rotated 1]) (rule at, assumption)
  next
    fix p assume "4 * msize p + 1 \<le> Suc n"
    then show "parseAtom V (Suc n) p \<noteq> None"
      by (rule parseAtom_returns [rotated 1]) (rule e, assumption)
  qed
qed

text \<open>
  The bound of the entry points is never reached: \<open>ParseStrict\<close> and \<open>Parse\<close> return an
  error or an expression on every text.
\<close>

lemma parse_run_returns: "parse_run V inp \<noteq> None"
proof -
  from newParser_returns [of inp] obtain p where p: "newParser inp = Inr p" "msize p \<le> length inp"
    by blast
  then have "4 * msize p + 4 \<le> parse_fuel inp" by (simp add: parse_fuel_def)
  with parser_returns [of "parse_fuel inp" V] have "parseExpression V (parse_fuel inp) p \<noteq> None"
    by blast
  with p show ?thesis by (auto simp: parse_run_def split: sum.splits option.splits)
qed

lemma ParseStrict_returns: "ParseStrict V s \<noteq> None"
  using parse_run_returns [of V "TrimSpace s"] by (simp add: ParseStrict_def Let_def)

lemma Parse_returns: "Parse V s \<noteq> None"
proof (cases "normalizeExpressionString V (TrimSpace s)")
  case (Inl err)
  then show ?thesis by (simp add: Parse_def Let_def)
next
  case (Inr normalized)
  with parse_run_returns [of V normalized] show ?thesis by (simp add: Parse_def Let_def)
qed

section \<open>More calls change no result\<close>

lemma parser_mono_Suc:
  "(\<forall>p r. parseExpression V n p = Some r \<longrightarrow> parseExpression V (Suc n) p = Some r)
   \<and> (\<forall>l p r. parseExpression_loop V n l p = Some r \<longrightarrow> parseExpression_loop V (Suc n) l p = Some r)
   \<and> (\<forall>p r. parseAnd V n p = Some r \<longrightarrow> parseAnd V (Suc n) p = Some r)
   \<and> (\<forall>l p r. parseAnd_loop V n l p = Some r \<longrightarrow> parseAnd_loop V (Suc n) l p = Some r)
   \<and> (\<forall>p r. parseWith V n p = Some r \<longrightarrow> parseWith V (Suc n) p = Some r)
   \<and> (\<forall>p r. parseAtom V n p = Some r \<longrightarrow> parseAtom V (Suc n) p = Some r)"
proof (induction n)
  case 0
  show ?case by simp
next
  case (Suc n)
  then have e: "\<And>q r. parseExpression V n q = Some r \<Longrightarrow> parseExpression V (Suc n) q = Some r"
    and el: "\<And>l q r. parseExpression_loop V n l q = Some r
               \<Longrightarrow> parseExpression_loop V (Suc n) l q = Some r"
    and a: "\<And>q r. parseAnd V n q = Some r \<Longrightarrow> parseAnd V (Suc n) q = Some r"
    and al: "\<And>l q r. parseAnd_loop V n l q = Some r \<Longrightarrow> parseAnd_loop V (Suc n) l q = Some r"
    and w: "\<And>q r. parseWith V n q = Some r \<Longrightarrow> parseWith V (Suc n) q = Some r"
    and at: "\<And>q r. parseAtom V n q = Some r \<Longrightarrow> parseAtom V (Suc n) q = Some r"
    by blast+
  show ?case
  proof (intro conjI allI impI)
    fix p r assume h: "parseExpression V (Suc n) p = Some r"
    then obtain x where x: "parseAnd V n p = Some x" by (auto split: option.splits)
    show "parseExpression V (Suc (Suc n)) p = Some r"
    proof (cases x)
      case (Inl err)
      with h x a [OF x] show ?thesis by (auto simp add: parseExpression.simps(2) [of V "Suc n" p] parseExpression.simps(2) [of V n p] simp del: parseExpression.simps parseExpression_loop.simps parseAnd.simps parseAnd_loop.simps parseWith.simps parseAtom.simps)
    next
      case (Inr lp)
      obtain l p1 where "lp = (l, p1)" by (cases lp)
      with h x Inr have "parseExpression_loop V n l p1 = Some r" by simp
      from el [OF this] a [OF x] Inr \<open>lp = (l, p1)\<close> show ?thesis
        by (auto simp add: parseExpression.simps(2) [of V "Suc n" p] parseExpression.simps(2) [of V n p] simp del: parseExpression.simps parseExpression_loop.simps parseAnd.simps parseAnd_loop.simps parseWith.simps parseAtom.simps)
    qed
  next
    fix l p r assume h: "parseExpression_loop V (Suc n) l p = Some r"
    show "parseExpression_loop V (Suc (Suc n)) l p = Some r"
    proof (cases "ttyp (current p) = tokenOr")
      case False
      with h show ?thesis by simp
    next
      case True
      show ?thesis
      proof (cases "advance p")
        case (Inl err)
        with h True show ?thesis by simp
      next
        case (Inr p1)
        with h True obtain x where x: "parseAnd V n p1 = Some x" by (auto split: option.splits)
        show ?thesis
        proof (cases x)
          case (Inl err)
          with h True Inr x a [OF x] show ?thesis by (auto simp add: parseExpression_loop.simps(2) [of V "Suc n" l p] parseExpression_loop.simps(2) [of V n l p] simp del: parseExpression.simps parseExpression_loop.simps parseAnd.simps parseAnd_loop.simps parseWith.simps parseAtom.simps)
        next
          case Inr2: (Inr rp)
          obtain rt p2 where rp: "rp = (rt, p2)" by (cases rp)
          with h True Inr x Inr2
          have "parseExpression_loop V n (OrExpression l rt) p2 = Some r" by simp
          from el [OF this] a [OF x] True Inr Inr2 rp show ?thesis
            by (auto simp add: parseExpression_loop.simps(2) [of V "Suc n" l p] parseExpression_loop.simps(2) [of V n l p] simp del: parseExpression.simps parseExpression_loop.simps parseAnd.simps parseAnd_loop.simps parseWith.simps parseAtom.simps)
        qed
      qed
    qed
  next
    fix p r assume h: "parseAnd V (Suc n) p = Some r"
    then obtain x where x: "parseWith V n p = Some x" by (auto split: option.splits)
    show "parseAnd V (Suc (Suc n)) p = Some r"
    proof (cases x)
      case (Inl err)
      with h x w [OF x] show ?thesis by (auto simp add: parseAnd.simps(2) [of V "Suc n" p] parseAnd.simps(2) [of V n p] simp del: parseExpression.simps parseExpression_loop.simps parseAnd.simps parseAnd_loop.simps parseWith.simps parseAtom.simps)
    next
      case (Inr lp)
      obtain l p1 where "lp = (l, p1)" by (cases lp)
      with h x Inr have "parseAnd_loop V n l p1 = Some r" by simp
      from al [OF this] w [OF x] Inr \<open>lp = (l, p1)\<close> show ?thesis
        by (auto simp add: parseAnd.simps(2) [of V "Suc n" p] parseAnd.simps(2) [of V n p] simp del: parseExpression.simps parseExpression_loop.simps parseAnd.simps parseAnd_loop.simps parseWith.simps parseAtom.simps)
    qed
  next
    fix l p r assume h: "parseAnd_loop V (Suc n) l p = Some r"
    show "parseAnd_loop V (Suc (Suc n)) l p = Some r"
    proof (cases "ttyp (current p) = tokenAnd")
      case False
      with h show ?thesis by simp
    next
      case True
      show ?thesis
      proof (cases "advance p")
        case (Inl err)
        with h True show ?thesis by simp
      next
        case (Inr p1)
        with h True obtain x where x: "parseWith V n p1 = Some x" by (auto split: option.splits)
        show ?thesis
        proof (cases x)
          case (Inl err)
          with h True Inr x w [OF x] show ?thesis by (auto simp add: parseAnd_loop.simps(2) [of V "Suc n" l p] parseAnd_loop.simps(2) [of V n l p] simp del: parseExpression.simps parseExpression_loop.simps parseAnd.simps parseAnd_loop.simps parseWith.simps parseAtom.simps)
        next
          case Inr2: (Inr rp)
          obtain rt p2 where rp: "rp = (rt, p2)" by (cases rp)
          with h True Inr x Inr2
          have "parseAnd_loop V n (AndExpression l rt) p2 = Some r" by simp
          from al [OF this] w [OF x] True Inr Inr2 rp show ?thesis
            by (auto simp add: parseAnd_loop.simps(2) [of V "Suc n" l p] parseAnd_loop.simps(2) [of V n l p] simp del: parseExpression.simps parseExpression_loop.simps parseAnd.simps parseAnd_loop.simps parseWith.simps parseAtom.simps)
        qed
      qed
    qed
  next
    fix p r assume h: "parseWith V (Suc n) p = Some r"
    then obtain x where x: "parseAtom V n p = Some x" by (auto split: option.splits)
    from h x at [OF x] show "parseWith V (Suc (Suc n)) p = Some r"
      by (auto simp add: parseWith.simps(2) [of V "Suc n" p] parseWith.simps(2) [of V n p] simp del: parseExpression.simps parseExpression_loop.simps parseAnd.simps parseAnd_loop.simps parseWith.simps parseAtom.simps)
  next
    fix p r assume h: "parseAtom V (Suc n) p = Some r"
    show "parseAtom V (Suc (Suc n)) p = Some r"
    proof (cases "ttyp (current p) = tokenOpenParen")
      case False
      with h show ?thesis by (cases "ttyp (current p)") simp_all
    next
      case True
      show ?thesis
      proof (cases "advance p")
        case (Inl err)
        with h True show ?thesis by simp
      next
        case (Inr p1)
        with h True obtain x where x: "parseExpression V n p1 = Some x"
          by (auto split: option.splits)
        from h True Inr x e [OF x] show ?thesis by (auto simp add: parseAtom.simps(2) [of V "Suc n" p] parseAtom.simps(2) [of V n p] simp del: parseExpression.simps parseExpression_loop.simps parseAnd.simps parseAnd_loop.simps parseWith.simps parseAtom.simps)
      qed
    qed
  qed
qed

lemma parser_mono:
  assumes "n \<le> m"
  shows "parseExpression V n p = Some r \<Longrightarrow> parseExpression V m p = Some r"
    and "parseExpression_loop V n l p = Some r \<Longrightarrow> parseExpression_loop V m l p = Some r"
    and "parseAnd V n p = Some r \<Longrightarrow> parseAnd V m p = Some r"
    and "parseAnd_loop V n l p = Some r \<Longrightarrow> parseAnd_loop V m l p = Some r"
    and "parseWith V n p = Some r \<Longrightarrow> parseWith V m p = Some r"
    and "parseAtom V n p = Some r \<Longrightarrow> parseAtom V m p = Some r"
proof -
  have all: "(parseExpression V n p = Some r \<longrightarrow> parseExpression V (n + k) p = Some r)
    \<and> (parseExpression_loop V n l p = Some r \<longrightarrow> parseExpression_loop V (n + k) l p = Some r)
    \<and> (parseAnd V n p = Some r \<longrightarrow> parseAnd V (n + k) p = Some r)
    \<and> (parseAnd_loop V n l p = Some r \<longrightarrow> parseAnd_loop V (n + k) l p = Some r)
    \<and> (parseWith V n p = Some r \<longrightarrow> parseWith V (n + k) p = Some r)
    \<and> (parseAtom V n p = Some r \<longrightarrow> parseAtom V (n + k) p = Some r)" for k
  proof (induction k)
    case 0
    show ?case by simp
  next
    case (Suc k)
    with parser_mono_Suc [of V "n + k"] show ?case
      by (auto simp del: parseExpression.simps parseExpression_loop.simps parseAnd.simps
          parseAnd_loop.simps parseWith.simps parseAtom.simps)
  qed
  from assms obtain k where m: "m = n + k" using le_Suc_ex by blast
  show "parseExpression V n p = Some r \<Longrightarrow> parseExpression V m p = Some r"
    using all [of k] m by blast
  show "parseExpression_loop V n l p = Some r \<Longrightarrow> parseExpression_loop V m l p = Some r"
    using all [of k] m by blast
  show "parseAnd V n p = Some r \<Longrightarrow> parseAnd V m p = Some r"
    using all [of k] m by blast
  show "parseAnd_loop V n l p = Some r \<Longrightarrow> parseAnd_loop V m l p = Some r"
    using all [of k] m by blast
  show "parseWith V n p = Some r \<Longrightarrow> parseWith V m p = Some r"
    using all [of k] m by blast
  show "parseAtom V n p = Some r \<Longrightarrow> parseAtom V m p = Some r"
    using all [of k] m by blast
qed

end
